theory Spec2Isabelle
  imports Complex_Main "HOL-Library.Char_ord" "HOL-Library.List_Lexorder" "HOL-Library.Multiset"
begin

section \<open>Strings and numbers as the program renders them\<close>

text \<open>
  Template literals and \<open>Number.prototype.toString\<close> render an integer in decimal, with a
  leading minus sign when it is negative. \<open>Array.prototype.join\<close> puts the separator
  between the elements. Strings are compared by code unit, which for the ASCII text built
  here is the lexicographic order on \<open>char list\<close>.
\<close>

definition digit_char :: "nat \<Rightarrow> char" where
  "digit_char d = char_of (48 + d)"

function digits :: "nat \<Rightarrow> string" where
  "digits n = (if n < 10 then [digit_char n] else digits (n div 10) @ [digit_char (n mod 10)])"
  by pat_completeness auto
termination
  by (relation "measure id") auto

declare digits.simps [simp del]

definition toString :: "int \<Rightarrow> string" where
  "toString n = (if n < 0 then CHR ''-'' # digits (nat (- n)) else digits (nat n))"

fun join :: "string \<Rightarrow> string list \<Rightarrow> string" where
  "join sep [] = []"
| "join sep [x] = x"
| "join sep (x # y # ys) = x @ sep @ join sep (y # ys)"

definition newline :: string where
  "newline = [CHR 0x0A]"

fun filterBoolean :: "'a option list \<Rightarrow> 'a list" where
  "filterBoolean [] = []"
| "filterBoolean (None # xs) = filterBoolean xs"
| "filterBoolean (Some x # xs) = x # filterBoolean xs"

definition slice :: "nat \<Rightarrow> nat \<Rightarrow> 'a list \<Rightarrow> 'a list" where
  "slice i j xs = take (j - i) (drop i xs)"


section \<open>Data model (types.ts)\<close>

record MessageJobData =
  threadId :: string
  message :: string
  timestamp :: int
  instructions :: "string option"

text \<open>A queue job: its id (the queue stores every job under its id) and its payload.\<close>

record Job =
  job_id :: string
  data :: MessageJobData

record ToolCall =
  tc_id :: string
  tc_type :: string
  fn_name :: string
  fn_arguments :: string

record ToolOutput =
  tool_call_id :: string
  tool_output :: string

record ProcessingResult =
  pr_threadId :: string
  messagesProcessed :: nat
  processedJobIds :: "string list"
  runId :: string
  pr_status :: string

text \<open>What \<open>runs.retrieve\<close> answers: the run's status and, when it pauses, the action it asks for.\<close>

record RequiredAction =
  ra_type :: string
  ra_tool_calls :: "ToolCall list"

record Run =
  run_status :: string
  required_action :: "RequiredAction option"

text \<open>Every \<open>throw\<close> of the source is a value of this type.\<close>

datatype error =
    AlreadyProcessing string
  | RunTimeout string
  | RunEnded string string
  | TypeError
  | Thrown string

text \<open>
  Calls that leave the process (the conversational service, the tool-call handler, the
  queue's scheduling commands) and the timer, in the order they are issued.
\<close>

datatype event =
    CreateMessage string string
  | CreateRun string "string option"
  | Sleep real
  | RetrieveRun string string
  | HandleRequiresAction string string "ToolCall list"
  | SubmitToolOutputs string string "ToolOutput list"
  | Promote string
  | MoveToDelayed string int

text \<open>
  The state the code reads and writes: the wall clock (\<open>Date.now()\<close>, in ms), the Redis
  string keys (locks, high-water marks), the Redis sets (the Thread Job Index; the list is
  the order in which \<open>sMembers\<close> answers), the queue's jobs by id, and the trace of events,
  each stamped with the clock at which it was issued.
\<close>

record world =
  clock :: int
  redis_strings :: "string \<rightharpoonup> string"
  redis_sets :: "string \<Rightarrow> string list"
  queue_jobs :: "string \<rightharpoonup> Job"
  trace :: "(int \<times> event) list"

text \<open>
  The collaborators' behaviour: whether \<open>messages.create\<close> fails, what \<open>runs.create\<close>
  answers, what the \<open>k\<close>-th \<open>runs.retrieve\<close> answers, whether the submission of tool outputs
  in iteration \<open>k\<close> fails, how long iteration \<open>k\<close> takes beyond its timer (in ms), and what
  other workers and producers do to the shared state while the cycle awaits its run.
\<close>

record env =
  createMessage_error :: "error option"
  createRun_result :: "error + string"
  retrieve_result :: "nat \<Rightarrow> error + Run"
  submit_error :: "nat \<Rightarrow> error option"
  latency :: "nat \<Rightarrow> nat"
  concurrent :: "world \<Rightarrow> world"

record options =
  queuePrefix :: string
  defaultInstructions :: string
  handleRequiresAction :: "(string \<Rightarrow> string \<Rightarrow> ToolCall list \<Rightarrow> error + ToolOutput list) option"

definition lockKey :: "options \<Rightarrow> string \<Rightarrow> string" where
  "lockKey opts tid = queuePrefix opts @ '':lock_thread_'' @ tid"

definition threadJobsKey :: "options \<Rightarrow> string \<Rightarrow> string" where
  "threadJobsKey opts tid = queuePrefix opts @ '':threadJobs:'' @ tid"

definition lastProcessedKey :: "options \<Rightarrow> string \<Rightarrow> string" where
  "lastProcessedKey opts tid = queuePrefix opts @ '':last_processed_'' @ tid"

definition emit :: "event \<Rightarrow> world \<Rightarrow> world" where
  "emit ev w = w\<lparr>trace := trace w @ [(clock w, ev)]\<rparr>"

text \<open>
  \<open>await new Promise(resolve => setTimeout(resolve, delay))\<close>: the runtime truncates the
  duration to whole milliseconds and takes a duration below 1 ms as 1 ms.
\<close>

definition sleep :: "real \<Rightarrow> world \<Rightarrow> world" where
  "sleep d w = (emit (Sleep d) w)\<lparr>clock := clock w + max 1 \<lfloor>d\<rfloor>\<rparr>"


section \<open>Submission and the Thread Job Index (assistant-message-queue.ts)\<close>

definition makeJobId :: "string \<Rightarrow> int \<Rightarrow> string" where
  "makeJobId tid ts = ''thread_'' @ tid @ ''_'' @ toString ts"

text \<open>
  \<open>addMessageToThread\<close>. The queue keeps the first job added under an id; \<open>sAdd\<close> adds a
  member the set does not hold yet. The scheduling options (delay, attempts, backoff) are
  handed to the queue framework and never read back.
\<close>

definition addMessageToThread ::
  "options \<Rightarrow> string \<Rightarrow> string \<Rightarrow> string option \<Rightarrow> world \<Rightarrow> string \<times> world" where
  "addMessageToThread opts tid msg instr w =
     (let ts = clock w;
          jobId = makeJobId tid ts;
          job = \<lparr>job_id = jobId,
                 data = \<lparr>threadId = tid, message = msg, timestamp = ts, instructions = instr\<rparr>\<rparr>;
          q = (case queue_jobs w jobId of None \<Rightarrow> (queue_jobs w)(jobId \<mapsto> job) | Some _ \<Rightarrow> queue_jobs w);
          k = threadJobsKey opts tid;
          members = redis_sets w k;
          s = (if jobId \<in> set members then members else members @ [jobId])
      in (jobId, w\<lparr>queue_jobs := q, redis_sets := (redis_sets w)(k := s)\<rparr>))"

definition batchSize :: nat where
  "batchSize = 20"

text \<open>
  The loop of \<open>getJobsByThreadId\<close>: \<open>i\<close> steps through the ids by \<open>batchSize\<close>; each round
  fetches one slice with \<open>Promise.all\<close> and keeps the jobs found. Beside the jobs the model
  returns the slices fetched, in order.
\<close>

function fetchBatches ::
  "world \<Rightarrow> string list \<Rightarrow> nat \<Rightarrow> Job list \<times> string list list \<Rightarrow> Job list \<times> string list list" where
  "fetchBatches w jobIds i (jobs, calls) =
     (if i < length jobIds then
        (let batchIds = slice i (i + batchSize) jobIds;
             batchJobs = map (queue_jobs w) batchIds
         in fetchBatches w jobIds (i + batchSize) (jobs @ filterBoolean batchJobs, calls @ [batchIds]))
      else (jobs, calls))"
  by pat_completeness auto
termination
  by (relation "measure (\<lambda>(w, jobIds, i, acc). length jobIds - i)") (auto simp: batchSize_def)

declare fetchBatches.simps [simp del]

definition getJobsByThreadId :: "options \<Rightarrow> string \<Rightarrow> world \<Rightarrow> Job list" where
  "getJobsByThreadId opts tid w =
     (let jobIds = redis_sets w (threadJobsKey opts tid)
      in if jobIds = [] then [] else fst (fetchBatches w jobIds 0 ([], [])))"

definition getJobsByThreadId_batches :: "options \<Rightarrow> string \<Rightarrow> world \<Rightarrow> string list list" where
  "getJobsByThreadId_batches opts tid w =
     (let jobIds = redis_sets w (threadJobsKey opts tid)
      in if jobIds = [] then [] else snd (fetchBatches w jobIds 0 ([], [])))"

definition getNewerJobsByThreadId :: "options \<Rightarrow> string \<Rightarrow> int \<Rightarrow> world \<Rightarrow> Job list" where
  "getNewerJobsByThreadId opts tid ts w =
     sort_key (\<lambda>job. timestamp (data job))
       (filter (\<lambda>job. timestamp (data job) > ts) (getJobsByThreadId opts tid w))"

definition removeJobsFromThreadIndex :: "options \<Rightarrow> string \<Rightarrow> string list \<Rightarrow> world \<Rightarrow> world" where
  "removeJobsFromThreadIndex opts tid jobIds w =
     (if jobIds = [] then w
      else w\<lparr>redis_sets := (redis_sets w)
               (threadJobsKey opts tid :=
                  filter (\<lambda>m. m \<notin> set jobIds) (redis_sets w (threadJobsKey opts tid)))\<rparr>)"

definition remove_job :: "Job \<Rightarrow> world \<Rightarrow> world" where
  "remove_job job w = w\<lparr>queue_jobs := (queue_jobs w)(job_id job := None)\<rparr>"


section \<open>The run state machine (waitForRunCompletion)\<close>

definition maxDelay :: real where
  "maxDelay = 15000"

definition maxWaitTime :: int where
  "maxWaitTime = 300000"

definition nextDelay :: "real \<Rightarrow> real" where
  "nextDelay delay = min (delay * 1.5) maxDelay"

definition toolCallOf :: "ToolCall \<Rightarrow> ToolCall" where
  "toolCallOf toolCall =
     \<lparr>tc_id = tc_id toolCall, tc_type = ''function'',
      fn_name = fn_name toolCall, fn_arguments = fn_arguments toolCall\<rparr>"

text \<open>
  One round of the \<open>while\<close> loop after its timeout check: sleep, retrieve the run, hand a
  \<open>requires_action\<close> to the handler when one is configured, and lengthen the delay. The
  result is the error thrown, or the status and the delay the next round starts with.
\<close>

definition pollOnce ::
  "options \<Rightarrow> env \<Rightarrow> string \<Rightarrow> string \<Rightarrow> nat \<Rightarrow> real \<Rightarrow> world \<Rightarrow> (error + string \<times> real) \<times> world" where
  "pollOnce opts env tid rid k delay w =
     (let w1 = sleep delay w;
          w2 = (emit (RetrieveRun tid rid) w1)\<lparr>clock := clock w1 + int (latency env k)\<rparr>
      in case retrieve_result env k of
           Inl e \<Rightarrow> (Inl e, w2)
         | Inr checkRun \<Rightarrow>
             (let status = run_status checkRun in
              if status = ''requires_action'' \<and> handleRequiresAction opts \<noteq> None then
                (case (required_action checkRun, handleRequiresAction opts) of
                   (Some ra, Some handler) \<Rightarrow>
                     if ra_type ra = ''submit_tool_outputs'' then
                       (let toolCalls = map toolCallOf (ra_tool_calls ra);
                            w3 = emit (HandleRequiresAction tid rid toolCalls) w2
                        in case handler tid rid toolCalls of
                             Inl e \<Rightarrow> (Inl e, w3)
                           | Inr toolOutputs \<Rightarrow>
                               (let w4 = emit (SubmitToolOutputs tid rid toolOutputs) w3
                                in case submit_error env k of
                                     Some e \<Rightarrow> (Inl e, w4)
                                   | None \<Rightarrow> (Inr (''in_progress'', nextDelay delay), w4)))
                     else (Inr (status, nextDelay delay), w2)
                 | _ \<Rightarrow> (Inr (status, nextDelay delay), w2))
              else (Inr (status, nextDelay delay), w2)))"

lemma pollOnce_clock:
  "clock (snd (pollOnce opts env tid rid k delay w)) = clock w + max 1 \<lfloor>delay\<rfloor> + int (latency env k)"
  by (simp add: pollOnce_def sleep_def emit_def Let_def split: sum.splits option.splits prod.splits)

text \<open>
  The \<open>while\<close> loop: \<open>k\<close> counts the rounds already made. It ends with the status that
  left the loop, or with the error thrown inside it.
\<close>

function pollLoop ::
  "options \<Rightarrow> env \<Rightarrow> string \<Rightarrow> string \<Rightarrow> int \<Rightarrow> nat \<Rightarrow> string \<Rightarrow> real \<Rightarrow> world \<Rightarrow> (error + string) \<times> world" where
  "pollLoop opts env tid rid startTime k status delay w =
     (if status \<in> set [''in_progress'', ''queued''] then
        (if clock w - startTime > maxWaitTime then (Inl (RunTimeout tid), w)
         else (case pollOnce opts env tid rid k delay w of
                 (Inl e, w') \<Rightarrow> (Inl e, w')
               | (Inr (status', delay'), w') \<Rightarrow>
                   pollLoop opts env tid rid startTime (Suc k) status' delay' w'))
      else (Inr status, w))"
  by pat_completeness auto
termination
proof (relation "measure (\<lambda>(opts, env, tid, rid, startTime, k, status, delay, w).
                    nat (maxWaitTime + 1 - (clock w - startTime)))", goal_cases)
  case 1
  show ?case by simp
next
  case (2 opts env tid rid startTime k status delay w x1 w' x2 status' delay')
  from 2 have "snd (pollOnce opts env tid rid k delay w) = w'"
    by (metis snd_conv)
  then have "clock w' = clock w + max 1 \<lfloor>delay\<rfloor> + int (latency env k)"
    using pollOnce_clock [of opts env tid rid k delay w] by simp
  with 2 show ?case by simp
qed

declare pollLoop.simps [simp del]

text \<open>The check after the loop: only \<open>completed\<close> is returned, any other status is thrown.\<close>

definition finishWait :: "string \<Rightarrow> error + string \<Rightarrow> error + string" where
  "finishWait tid r =
     (case r of
        Inl e \<Rightarrow> Inl e
      | Inr status \<Rightarrow> if status \<noteq> ''completed'' then Inl (RunEnded status tid) else Inr status)"

text \<open>The wait from a given state of the loop variables; \<open>waitForRunCompletion\<close> starts it.\<close>

definition waitFrom ::
  "options \<Rightarrow> env \<Rightarrow> string \<Rightarrow> string \<Rightarrow> int \<Rightarrow> nat \<Rightarrow> string \<Rightarrow> real \<Rightarrow> world \<Rightarrow> (error + string) \<times> world" where
  "waitFrom opts env tid rid startTime k status delay w =
     (case pollLoop opts env tid rid startTime k status delay w of
        (r, w') \<Rightarrow> (finishWait tid r, w'))"

definition waitForRunCompletion ::
  "options \<Rightarrow> env \<Rightarrow> string \<Rightarrow> string \<Rightarrow> world \<Rightarrow> (error + string) \<times> world" where
  "waitForRunCompletion opts env tid rid w =
     (let status = ''in_progress'';
          delay = 1000;
          startTime = clock w
      in waitFrom opts env tid rid startTime 0 status delay w)"


text \<open>Readers of a trace: the delays slept, and the clock readings at which sleeps began.\<close>

fun sleepsOf :: "(int \<times> event) list \<Rightarrow> real list" where
  "sleepsOf [] = []"
| "sleepsOf ((t, ev) # es) = (case ev of Sleep d \<Rightarrow> d # sleepsOf es | _ \<Rightarrow> sleepsOf es)"

fun sleepStarts :: "(int \<times> event) list \<Rightarrow> int list" where
  "sleepStarts [] = []"
| "sleepStarts ((t, ev) # es) = (case ev of Sleep d \<Rightarrow> t # sleepStarts es | _ \<Rightarrow> sleepStarts es)"

definition newEvents :: "world \<Rightarrow> world \<Rightarrow> (int \<times> event) list" where
  "newEvents w w' = drop (length (trace w)) (trace w')"

text \<open>
  The delay sequence in the specification's words: it starts at 1000 ms, is multiplied by
  1.5 after each iteration and is capped at 15000 ms.
\<close>

fun backoff :: "nat \<Rightarrow> real" where
  "backoff 0 = 1000"
| "backoff (Suc n) = min (backoff n * 1.5) 15000"

text \<open>The delays of \<open>n\<close> successive rounds of the loop, the first of them \<open>d\<close>.\<close>

fun delaysFrom :: "real \<Rightarrow> nat \<Rightarrow> real list" where
  "delaysFrom d 0 = []"
| "delaysFrom d (Suc n) = d # delaysFrom (nextDelay d) n"


section \<open>The distributed lock (redis-helper.ts and the finally block)\<close>

text \<open>\<open>SET key value NX EX ttl\<close>: stores the value when the key is absent.\<close>

definition acquireLock :: "string \<Rightarrow> string \<Rightarrow> world \<Rightarrow> bool \<times> world" where
  "acquireLock key val w =
     (case redis_strings w key of
        None \<Rightarrow> (True, w\<lparr>redis_strings := (redis_strings w)(key \<mapsto> val)\<rparr>)
      | Some _ \<Rightarrow> (False, w))"

definition releaseLock :: "string \<Rightarrow> string \<Rightarrow> world \<Rightarrow> bool \<times> world" where
  "releaseLock key val w =
     (let currentLock = redis_strings w key
      in if currentLock = Some val then (True, w\<lparr>redis_strings := (redis_strings w)(key := None)\<rparr>)
         else (False, w))"

definition lockExists :: "string \<Rightarrow> world \<Rightarrow> bool" where
  "lockExists key w = (redis_strings w key \<noteq> None)"


section \<open>The batch processor (processMessages and the worker callback)\<close>

text \<open>
  What other workers and producers did meanwhile: they change the shared stores (Redis and
  the queue), not this worker's clock or trace.
\<close>

definition interfere :: "env \<Rightarrow> world \<Rightarrow> world" where
  "interfere env w = (concurrent env w)\<lparr>clock := clock w, trace := trace w\<rparr>"

definition cycleInstructions :: "options \<Rightarrow> Job \<Rightarrow> string" where
  "cycleInstructions opts job =
     (case instructions (data job) of
        None \<Rightarrow> defaultInstructions opts
      | Some s \<Rightarrow> if s = [] then defaultInstructions opts else s)"

text \<open>
  The code that follows a completed run: remove the batch from the queue and from the
  index, then promote the oldest job newer than the high-water mark.
\<close>

definition afterRun ::
  "options \<Rightarrow> string \<Rightarrow> Job list \<Rightarrow> int \<Rightarrow> string \<Rightarrow> string \<Rightarrow> world \<Rightarrow> ProcessingResult \<times> world" where
  "afterRun opts tid jobs maxTimestamp rid status w =
     (let jobIds = filter (\<lambda>i. i \<noteq> []) (map job_id jobs);
          w1 = fold remove_job jobs w;
          w2 = removeJobsFromThreadIndex opts tid jobIds w1;
          newerJobs = getNewerJobsByThreadId opts tid maxTimestamp w2;
          w3 = (case newerJobs of [] \<Rightarrow> w2 | job # _ \<Rightarrow> emit (Promote (job_id job)) w2)
      in (\<lparr>pr_threadId = tid, messagesProcessed = length jobs, processedJobIds = jobIds,
           runId = rid, pr_status = status\<rparr>, w3))"

text \<open>
  The \<open>try\<close> block of \<open>processMessages\<close>. \<open>jobs.sort\<close> is stable and sorts in place, so
  every later use of \<open>jobs\<close> sees the sorted array; reading \<open>jobs[jobs.length - 1].data\<close>
  of an empty array throws. \<open>createRun\<close> leaves the instructions out of the request when
  they are the empty string.
\<close>

definition processMessages_try ::
  "options \<Rightarrow> env \<Rightarrow> string \<Rightarrow> Job list \<Rightarrow> world \<Rightarrow> (error + ProcessingResult) \<times> world" where
  "processMessages_try opts env tid jobs0 w =
     (let jobs = sort_key (\<lambda>job. timestamp (data job)) jobs0
      in if jobs = [] then (Inl TypeError, w)
         else
           (let messages = map (\<lambda>job. message (data job)) jobs;
                combinedMessage = join newline messages;
                instrs = cycleInstructions opts (last jobs);
                maxTimestamp = Max (set (map (\<lambda>job. timestamp (data job)) jobs));
                w1 = w\<lparr>redis_strings := (redis_strings w)(lastProcessedKey opts tid \<mapsto> toString maxTimestamp)\<rparr>;
                w2 = emit (CreateMessage tid combinedMessage) w1
            in case createMessage_error env of
                 Some e \<Rightarrow> (Inl e, w2)
               | None \<Rightarrow>
                   (let w3 = emit (CreateRun tid (if instrs = [] then None else Some instrs)) w2
                    in case createRun_result env of
                         Inl e \<Rightarrow> (Inl e, w3)
                       | Inr rid \<Rightarrow>
                           (case waitForRunCompletion opts env tid rid w3 of
                              (r, w4) \<Rightarrow>
                                (let w5 = interfere env w4
                                 in case r of
                                      Inl e \<Rightarrow> (Inl e, w5)
                                    | Inr status \<Rightarrow>
                                        (case afterRun opts tid jobs maxTimestamp rid status w5 of
                                           (res, w6) \<Rightarrow> (Inr res, w6)))))))"

text \<open>
  \<open>processMessages\<close>: take the lock with the clock reading as owner token, run the \<open>try\<close>
  block, and in the \<open>finally\<close> block delete the lock when it still holds that token.
\<close>

definition processMessages ::
  "options \<Rightarrow> env \<Rightarrow> string \<Rightarrow> Job list \<Rightarrow> world \<Rightarrow> (error + ProcessingResult) \<times> world" where
  "processMessages opts env tid jobs w =
     (let key = lockKey opts tid;
          processingTimestamp = clock w;
          lockValue = toString processingTimestamp
      in case acquireLock key lockValue w of
           (False, w0) \<Rightarrow> (Inl (AlreadyProcessing tid), w0)
         | (True, w0) \<Rightarrow>
             (case processMessages_try opts env tid jobs w0 of
                (r, w1) \<Rightarrow>
                  (let currentLock = redis_strings w1 key
                   in if currentLock = Some lockValue
                      then (r, w1\<lparr>redis_strings := (redis_strings w1)(key := None)\<rparr>)
                      else (r, w1))))"

text \<open>
  The callback \<open>startWorker\<close> registers, run once per dispatched job. \<open>relatedJobs\<close> is
  not empty where its first element is read.
\<close>

definition workerCallback ::
  "options \<Rightarrow> env \<Rightarrow> Job \<Rightarrow> world \<Rightarrow> (error + ProcessingResult option) \<times> world" where
  "workerCallback opts env job w =
     (let tid = threadId (data job);
          jobId = job_id job;
          relatedJobs = getJobsByThreadId opts tid w
      in if relatedJobs = [] then (Inr None, w)
         else
           (let ordered = sort_key (\<lambda>job. timestamp (data job)) relatedJobs;
                isLocked = lockExists (lockKey opts tid) w
            in if isLocked then (Inr None, emit (MoveToDelayed jobId (clock w + 5000)) w)
               else if job_id (hd ordered) \<noteq> jobId then (Inr None, w)
               else (case processMessages opts env tid ordered w of
                       (Inl e, w') \<Rightarrow> (Inl e, w')
                     | (Inr res, w') \<Rightarrow> (Inr (Some res), w'))))"


text \<open>
  Further readers of a trace: the events a wait may issue, and the ids of the jobs
  promoted.
\<close>

fun isRunEvent :: "event \<Rightarrow> bool" where
  "isRunEvent (Sleep d) = True"
| "isRunEvent (RetrieveRun tid rid) = True"
| "isRunEvent (HandleRequiresAction tid rid toolCalls) = True"
| "isRunEvent (SubmitToolOutputs tid rid toolOutputs) = True"
| "isRunEvent ev = False"

fun promotesOf :: "(int \<times> event) list \<Rightarrow> string list" where
  "promotesOf [] = []"
| "promotesOf ((t, ev) # es) = (case ev of Promote i \<Rightarrow> i # promotesOf es | _ \<Rightarrow> promotesOf es)"


section \<open>Concrete scenarios\<close>

text \<open>
  Small worlds and collaborators on which the theorems below are exercised: the default
  options, an empty store at a fixed clock reading, a service whose run stays
  \<open>in_progress\<close> for the first \<open>n\<close> polls and is then \<open>completed\<close>, and a
  service whose run first asks for one tool call.
\<close>

definition ex_opts :: options where
  "ex_opts = \<lparr>queuePrefix = ''assistant'', defaultInstructions = ''Reply to all messages logically.'',
              handleRequiresAction = None\<rparr>"

definition ex_world :: world where
  "ex_world = \<lparr>clock = 1700000000000, redis_strings = Map.empty, redis_sets = (\<lambda>_. []),
               queue_jobs = Map.empty, trace = []\<rparr>"

definition steady_env :: "nat \<Rightarrow> env" where
  "steady_env n =
     \<lparr>createMessage_error = None, createRun_result = Inr ''run_1'',
      retrieve_result = (\<lambda>k. Inr \<lparr>run_status = (if k < n then ''in_progress'' else ''completed''),
                                   required_action = None\<rparr>),
      submit_error = (\<lambda>_. None), latency = (\<lambda>_. 0), concurrent = (\<lambda>w. w)\<rparr>"

definition ex_handler :: "string \<Rightarrow> string \<Rightarrow> ToolCall list \<Rightarrow> error + ToolOutput list" where
  "ex_handler tid rid toolCalls =
     Inr (map (\<lambda>c. \<lparr>tool_call_id = tc_id c, tool_output = ''sunny''\<rparr>) toolCalls)"

definition failing_handler :: "string \<Rightarrow> string \<Rightarrow> ToolCall list \<Rightarrow> error + ToolOutput list" where
  "failing_handler tid rid toolCalls = Inl (Thrown ''handler failed'')"

definition ex_action :: RequiredAction where
  "ex_action = \<lparr>ra_type = ''submit_tool_outputs'',
                ra_tool_calls = [\<lparr>tc_id = ''call_1'', tc_type = ''function'',
                                  fn_name = ''get_weather'', fn_arguments = ''{}''\<rparr>]\<rparr>"

definition tool_env :: env where
  "tool_env =
     \<lparr>createMessage_error = None, createRun_result = Inr ''run_1'',
      retrieve_result = (\<lambda>k. if k = 0 then Inr \<lparr>run_status = ''requires_action'', required_action = Some ex_action\<rparr>
                              else Inr \<lparr>run_status = ''completed'', required_action = None\<rparr>),
      submit_error = (\<lambda>_. None), latency = (\<lambda>_. 0), concurrent = (\<lambda>w. w)\<rparr>"


text \<open>
  Four jobs of thread \<open>T\<close>, submitted about eleven seconds before the clock reading of
  \<open>ex_world\<close>, and a world whose queue holds them and whose index answers the given ids
  in the given order.
\<close>

definition job_A :: Job where
  "job_A = \<lparr>job_id = ''thread_T_1699999989001'',
            data = \<lparr>threadId = ''T'', message = ''A'', timestamp = 1699999989001,
                    instructions = Some ''Answer in French.''\<rparr>\<rparr>"

definition job_B :: Job where
  "job_B = \<lparr>job_id = ''thread_T_1699999989002'',
            data = \<lparr>threadId = ''T'', message = ''B'', timestamp = 1699999989002,
                    instructions = None\<rparr>\<rparr>"

definition job_C :: Job where
  "job_C = \<lparr>job_id = ''thread_T_1699999989003'',
            data = \<lparr>threadId = ''T'', message = ''C'', timestamp = 1699999989003,
                    instructions = Some []\<rparr>\<rparr>"

definition job_D :: Job where
  "job_D = \<lparr>job_id = ''thread_T_1699999989004'',
            data = \<lparr>threadId = ''T'', message = ''D'', timestamp = 1699999989004,
                    instructions = Some ''Be brief.''\<rparr>\<rparr>"

definition busy_world :: "string list \<Rightarrow> world" where
  "busy_world ids =
     ex_world\<lparr>redis_sets := (\<lambda>k. if k = ''assistant:threadJobs:T'' then ids else []),
              queue_jobs := map_of [(job_id job_A, job_A), (job_id job_B, job_B),
                                    (job_id job_C, job_C), (job_id job_D, job_D)]\<rparr>"


text \<open>
  Three more collaborators: a service whose run fails at the first poll; another worker
  that, while the run is awaited, finds the lock expired and takes it with its own token;
  and a producer whose submission of a message \<open>E\<close> to thread \<open>T\<close> at clock reading
  1700000000500 lands while the run is awaited (its job is stored and its id indexed).
\<close>

definition failed_run_env :: env where
  "failed_run_env =
     \<lparr>createMessage_error = None, createRun_result = Inr ''run_1'',
      retrieve_result = (\<lambda>k. Inr \<lparr>run_status = ''failed'', required_action = None\<rparr>),
      submit_error = (\<lambda>_. None), latency = (\<lambda>_. 0), concurrent = (\<lambda>w. w)\<rparr>"

definition takeover_env :: env where
  "takeover_env =
     (steady_env 1)\<lparr>concurrent :=
        (\<lambda>v. v\<lparr>redis_strings := (redis_strings v)(''assistant:lock_thread_T'' \<mapsto> ''1700000000900'')\<rparr>)\<rparr>"

definition job_E :: Job where
  "job_E = \<lparr>job_id = ''thread_T_1700000000500'',
            data = \<lparr>threadId = ''T'', message = ''E'', timestamp = 1700000000500,
                    instructions = None\<rparr>\<rparr>"

definition arrival_env :: env where
  "arrival_env =
     (steady_env 1)\<lparr>concurrent :=
        (\<lambda>v. v\<lparr>queue_jobs := (queue_jobs v)(''thread_T_1700000000500'' \<mapsto> job_E),
                redis_sets := (redis_sets v)(''assistant:threadJobs:T'' :=
                   redis_sets v ''assistant:threadJobs:T'' @ [''thread_T_1700000000500''])\<rparr>)\<rparr>"

text \<open>A world in which another cycle holds the lock of thread \<open>T\<close>.\<close>

definition locked_world :: world where
  "locked_world =
     (busy_world [''thread_T_1699999989002'', ''thread_T_1699999989001''])
       \<lparr>redis_strings := [''assistant:lock_thread_T'' \<mapsto> ''1699999999000'']\<rparr>"


section \<open>Facts about the polling loop\<close>

lemma sleepsOf_append: "sleepsOf (xs @ ys) = sleepsOf xs @ sleepsOf ys"
  by (induction xs rule: sleepsOf.induct) (auto split: event.splits)

lemma sleepStarts_append: "sleepStarts (xs @ ys) = sleepStarts xs @ sleepStarts ys"
  by (induction xs rule: sleepStarts.induct) (auto split: event.splits)

lemma pollOnce_trace:
  "\<exists>more. trace (snd (pollOnce opts env tid rid k delay w)) = trace w @ (clock w, Sleep delay) # more
      \<and> sleepsOf more = [] \<and> sleepStarts more = []"
  by (simp add: pollOnce_def sleep_def emit_def Let_def split: sum.splits option.splits prod.splits)

lemma pollOnce_delay:
  "pollOnce opts env tid rid k delay w = (Inr (status', delay'), w') \<Longrightarrow> delay' = nextDelay delay"
  by (auto simp add: pollOnce_def Let_def split: sum.splits option.splits prod.splits if_splits)

lemma pollOnce_frame:
  "redis_strings (snd (pollOnce opts env tid rid k delay w)) = redis_strings w \<and>
   redis_sets (snd (pollOnce opts env tid rid k delay w)) = redis_sets w \<and>
   queue_jobs (snd (pollOnce opts env tid rid k delay w)) = queue_jobs w"
  by (simp add: pollOnce_def sleep_def emit_def Let_def split: sum.splits option.splits prod.splits)

text \<open>An induction rule that follows the four ways a round of the loop can go.\<close>

lemma pollLoop_rule [case_names exit timeout thrown round]:
  assumes exit: "\<And>k status delay w. status \<notin> set [''in_progress'', ''queued''] \<Longrightarrow> P k status delay w (Inr status, w)"
    and timeout: "\<And>k status delay w. status \<in> set [''in_progress'', ''queued''] \<Longrightarrow> clock w - startTime > maxWaitTime
            \<Longrightarrow> P k status delay w (Inl (RunTimeout tid), w)"
    and thrown: "\<And>k status delay w e w1. status \<in> set [''in_progress'', ''queued''] \<Longrightarrow> clock w - startTime \<le> maxWaitTime
            \<Longrightarrow> pollOnce opts env tid rid k delay w = (Inl e, w1) \<Longrightarrow> P k status delay w (Inl e, w1)"
    and round: "\<And>k status delay w status' delay' w1 res. status \<in> set [''in_progress'', ''queued''] \<Longrightarrow> clock w - startTime \<le> maxWaitTime
            \<Longrightarrow> pollOnce opts env tid rid k delay w = (Inr (status', delay'), w1)
            \<Longrightarrow> P (Suc k) status' delay' w1 res \<Longrightarrow> P k status delay w res"
  shows "P k status delay w (pollLoop opts env tid rid startTime k status delay w)"
proof (induction "nat (maxWaitTime + 1 - (clock w - startTime))" arbitrary: k status delay w
         rule: less_induct)
  case less
  show ?case
  proof (cases "status \<in> set [''in_progress'', ''queued'']")
    case False
    then have eq: "pollLoop opts env tid rid startTime k status delay w = (Inr status, w)"
      by (subst pollLoop.simps) auto
    show ?thesis unfolding eq by (rule exit [OF False])
  next
    case inloop: True
    show ?thesis
    proof (cases "clock w - startTime > maxWaitTime")
      case True
      then have eq: "pollLoop opts env tid rid startTime k status delay w = (Inl (RunTimeout tid), w)"
        using inloop by (subst pollLoop.simps) auto
      show ?thesis unfolding eq by (rule timeout [OF inloop True])
    next
      case False
      then have le: "clock w - startTime \<le> maxWaitTime" by simp
      obtain r w1 where po: "pollOnce opts env tid rid k delay w = (r, w1)"
        by (cases "pollOnce opts env tid rid k delay w")
      show ?thesis
      proof (cases r)
        case (Inl e)
        then have eq: "pollLoop opts env tid rid startTime k status delay w = (Inl e, w1)"
          using inloop False po by (subst pollLoop.simps) auto
        show ?thesis unfolding eq by (rule thrown [OF inloop le]) (simp add: po Inl)
      next
        case (Inr sd)
        obtain status' delay' where sd: "sd = (status', delay')" by (cases sd)
        have po': "pollOnce opts env tid rid k delay w = (Inr (status', delay'), w1)"
          using po Inr sd by simp
        have eq: "pollLoop opts env tid rid startTime k status delay w
                  = pollLoop opts env tid rid startTime (Suc k) status' delay' w1"
          using inloop False po' by (subst pollLoop.simps) auto
        have "clock w1 = clock w + max 1 \<lfloor>delay\<rfloor> + int (latency env k)"
          using pollOnce_clock [of opts env tid rid k delay w] po by simp
        then have "nat (maxWaitTime + 1 - (clock w1 - startTime)) < nat (maxWaitTime + 1 - (clock w - startTime))"
          using le by simp
        then have "P (Suc k) status' delay' w1 (pollLoop opts env tid rid startTime (Suc k) status' delay' w1)"
          by (rule less)
        then show ?thesis unfolding eq by (rule round [OF inloop le po'])
      qed
    qed
  qed
qed

lemma pollLoop_frame:
  "redis_strings (snd (pollLoop opts env tid rid startTime k status delay w)) = redis_strings w \<and>
   redis_sets (snd (pollLoop opts env tid rid startTime k status delay w)) = redis_sets w \<and>
   queue_jobs (snd (pollLoop opts env tid rid startTime k status delay w)) = queue_jobs w"
proof (induction rule: pollLoop_rule)
  case (thrown k status delay w e w1)
  then show ?case using pollOnce_frame [of opts env tid rid k delay w] by simp
next
  case (round k status delay w status' delay' w1 res)
  then show ?case using pollOnce_frame [of opts env tid rid k delay w] by simp
qed simp_all

lemma pollLoop_trace:
  "\<exists>new. trace (snd (pollLoop opts env tid rid startTime k status delay w)) = trace w @ new
      \<and> sleepsOf new = delaysFrom delay (length (sleepsOf new))
      \<and> list_all (\<lambda>t. t - startTime \<le> maxWaitTime) (sleepStarts new)"
proof (induction rule: pollLoop_rule)
  case (thrown k status delay w e w1)
  obtain more where "trace w1 = trace w @ (clock w, Sleep delay) # more" "sleepsOf more = []" "sleepStarts more = []"
    using pollOnce_trace [of opts env tid rid k delay w] thrown by auto
  with thrown show ?case by simp
next
  case (round k status delay w status' delay' w1 res)
  obtain more where more: "trace w1 = trace w @ (clock w, Sleep delay) # more" "sleepsOf more = []" "sleepStarts more = []"
    using pollOnce_trace [of opts env tid rid k delay w] round by auto
  from round obtain new where new: "trace (snd res) = trace w1 @ new"
      "sleepsOf new = delaysFrom delay' (length (sleepsOf new))"
      "list_all (\<lambda>t. t - startTime \<le> maxWaitTime) (sleepStarts new)"
    by auto
  have d': "delay' = nextDelay delay"
    using pollOnce_delay round by blast
  show ?case
    apply (rule exI [of _ "(clock w, Sleep delay) # more @ new"])
    using new more d' round by (simp add: sleepsOf_append sleepStarts_append)
qed simp_all

lemma pollLoop_duration:
  assumes lat: "\<forall>k. int (latency env k) \<le> L"
  shows "delay \<le> maxDelay \<longrightarrow> clock w - startTime \<le> maxWaitTime + 15000 + L
         \<longrightarrow> clock (snd (pollLoop opts env tid rid startTime k status delay w)) - startTime
               \<le> maxWaitTime + 15000 + L"
proof (rule pollLoop_rule [where P = "\<lambda>k status delay w res. delay \<le> maxDelay \<longrightarrow>
          clock w - startTime \<le> maxWaitTime + 15000 + L \<longrightarrow> clock (snd res) - startTime \<le> maxWaitTime + 15000 + L"],
       goal_cases)
  case (1 k status delay w)
  show ?case by simp
next
  case (2 k status delay w)
  show ?case by simp
next
  case (3 k status delay w e w1)
  have c: "clock w1 = clock w + max 1 \<lfloor>delay\<rfloor> + int (latency env k)"
    using pollOnce_clock [of opts env tid rid k delay w] 3 by simp
  show ?case
  proof (intro impI)
    assume "delay \<le> maxDelay"
    then have "max 1 \<lfloor>delay\<rfloor> \<le> 15000" by (simp add: maxDelay_def floor_le_iff)
    with c 3(2) lat [rule_format, of k] have "clock w1 - startTime \<le> maxWaitTime + 15000 + L"
      by linarith
    then show "clock (snd (Inl e, w1)) - startTime \<le> maxWaitTime + 15000 + L"
      by simp
  qed
next
  case (4 k status delay w status' delay' w1 res)
  have c: "clock w1 = clock w + max 1 \<lfloor>delay\<rfloor> + int (latency env k)"
    using pollOnce_clock [of opts env tid rid k delay w] 4 by simp
  have d': "delay' \<le> maxDelay"
    using pollOnce_delay [OF 4(3)] by (simp add: nextDelay_def)
  show ?case
  proof (intro impI)
    assume "delay \<le> maxDelay"
    then have "max 1 \<lfloor>delay\<rfloor> \<le> 15000" by (simp add: maxDelay_def floor_le_iff)
    with c 4(2) lat [rule_format, of k] have "clock w1 - startTime \<le> maxWaitTime + 15000 + L"
      by linarith
    with 4(4) d' show "clock (snd res) - startTime \<le> maxWaitTime + 15000 + L" by simp
  qed
qed

lemma waitFrom_timeout:
  "status \<in> set [''in_progress'', ''queued''] \<Longrightarrow> clock w - startTime > maxWaitTime
   \<Longrightarrow> waitFrom opts env tid rid startTime k status delay w = (Inl (RunTimeout tid), w)"
  by (subst waitFrom_def, subst pollLoop.simps) (simp add: finishWait_def)

lemma waitFrom_round:
  "status \<in> set [''in_progress'', ''queued''] \<Longrightarrow> clock w - startTime \<le> maxWaitTime \<Longrightarrow>
   pollOnce opts env tid rid k delay w = (Inr (status', delay'), w1) \<Longrightarrow>
   waitFrom opts env tid rid startTime k status delay w = waitFrom opts env tid rid startTime (Suc k) status' delay' w1"
  by (simp add: waitFrom_def pollLoop.simps [of opts env tid rid startTime k status delay w])

lemma waitFrom_thrown:
  "status \<in> set [''in_progress'', ''queued''] \<Longrightarrow> clock w - startTime \<le> maxWaitTime \<Longrightarrow>
   pollOnce opts env tid rid k delay w = (Inl e, w1) \<Longrightarrow>
   waitFrom opts env tid rid startTime k status delay w = (Inl e, w1)"
  by (simp add: waitFrom_def finishWait_def pollLoop.simps [of opts env tid rid startTime k status delay w])

lemma waitFrom_exit:
  "status \<notin> set [''in_progress'', ''queued''] \<Longrightarrow>
   waitFrom opts env tid rid startTime k status delay w = (finishWait tid (Inr status), w)"
  by (simp add: waitFrom_def pollLoop.simps [of opts env tid rid startTime k status delay w])

lemma backoff_iter: "backoff n = (nextDelay ^^ n) 1000"
  by (induction n) (simp_all add: nextDelay_def maxDelay_def)

lemma delaysFrom_iter: "delaysFrom ((nextDelay ^^ i) d) n = map (\<lambda>j. (nextDelay ^^ j) d) [i..<i + n]"
proof (induction n arbitrary: i)
  case 0
  show ?case by simp
next
  case (Suc n)
  have "delaysFrom (nextDelay ((nextDelay ^^ i) d)) n = map (\<lambda>j. (nextDelay ^^ j) d) [Suc i..<Suc i + n]"
    using Suc [of "Suc i"] by simp
  then show ?case by (simp add: upt_rec [of i])
qed

lemma delaysFrom_backoff: "delaysFrom 1000 n = map backoff [0..<n]"
  using delaysFrom_iter [of 0 1000 n] by (simp add: backoff_iter)

lemma backoff_bounds: "1000 \<le> backoff n \<and> backoff n \<le> 15000"
  by (induction n) auto

lemma backoff_step: "backoff n \<le> backoff (Suc n)"
  using backoff_bounds [of n] by simp

lemma backoff_mono: "i \<le> j \<Longrightarrow> backoff i \<le> backoff j"
  by (rule lift_Suc_mono_le [of backoff]) (simp_all add: backoff_step del: backoff.simps)

lemma sorted_backoff: "sorted (map backoff [0..<n])"
  by (simp add: sorted_map sorted_wrt_iff_nth_less backoff_mono del: backoff.simps)

lemma waitForRunCompletion_trace:
  "\<exists>new. trace (snd (waitForRunCompletion opts env tid rid w)) = trace w @ new
      \<and> sleepsOf new = map backoff [0..<length (sleepsOf new)]
      \<and> list_all (\<lambda>t. t - clock w \<le> maxWaitTime) (sleepStarts new)"
  using pollLoop_trace [of opts env tid rid "clock w" 0 "''in_progress''" 1000 w]
  by (auto simp: waitForRunCompletion_def waitFrom_def Let_def delaysFrom_backoff split: prod.splits)



lemma waitFrom_snd:
  "snd (waitFrom opts env tid rid startTime k status delay w)
   = snd (pollLoop opts env tid rid startTime k status delay w)"
  by (simp add: waitFrom_def split: prod.splits)

lemma waitForRunCompletion_snd:
  "snd (waitForRunCompletion opts env tid rid w)
   = snd (pollLoop opts env tid rid (clock w) 0 ''in_progress'' 1000 w)"
  by (simp add: waitForRunCompletion_def waitFrom_snd)

lemma waitForRunCompletion_duration:
  assumes "\<forall>k. int (latency env k) \<le> L"
  shows "clock (snd (waitForRunCompletion opts env tid rid w)) - clock w \<le> maxWaitTime + 15000 + L"
proof -
  have "0 \<le> L" using assms [rule_format, of 0] by simp
  then have "clock w - clock w \<le> maxWaitTime + 15000 + L" by (simp add: maxWaitTime_def)
  moreover have "(1000::real) \<le> maxDelay" by (simp add: maxDelay_def)
  ultimately have "clock (snd (pollLoop opts env tid rid (clock w) 0 ''in_progress'' 1000 w)) - clock w
      \<le> maxWaitTime + 15000 + L"
    using pollLoop_duration [OF assms, of 1000 w "clock w" opts tid rid 0 "''in_progress''"] by blast
  then show ?thesis
    by (simp add: waitForRunCompletion_snd)
qed

section \<open>Claims about the run state machine\<close>

text \<open>
  C7. The delays slept by \<open>waitForRunCompletion\<close> are, in order, the first values of the
  sequence that starts at 1000 ms, is multiplied by 1.5 after each iteration and is capped
  at 15000 ms; so they never decrease and never exceed 15000 ms. The run only appends to
  the trace.
\<close>

theorem backoff_schedule:
  "take (length (trace w)) (trace (snd (waitForRunCompletion opts env tid rid w))) = trace w
   \<and> sleepsOf (newEvents w (snd (waitForRunCompletion opts env tid rid w)))
       = map backoff [0..<length (sleepsOf (newEvents w (snd (waitForRunCompletion opts env tid rid w))))]
   \<and> sorted (sleepsOf (newEvents w (snd (waitForRunCompletion opts env tid rid w))))
   \<and> list_all (\<lambda>d. d \<le> 15000) (sleepsOf (newEvents w (snd (waitForRunCompletion opts env tid rid w))))
   \<and> backoff 0 = 1000 \<and> (\<forall>n. backoff (Suc n) = min (backoff n * 1.5) 15000)"
proof -
  obtain new where new: "trace (snd (waitForRunCompletion opts env tid rid w)) = trace w @ new"
    "sleepsOf new = map backoff [0..<length (sleepsOf new)]"
    using waitForRunCompletion_trace by blast
  have ne: "newEvents w (snd (waitForRunCompletion opts env tid rid w)) = new"
    by (simp add: newEvents_def new(1))
  have "sorted (sleepsOf new)"
    using sorted_backoff [of "length (sleepsOf new)"] new(2) by simp
  moreover have "list_all (\<lambda>d. d \<le> 15000) (sleepsOf new)"
    by (subst new(2)) (simp add: list_all_iff backoff_bounds del: backoff.simps)
  ultimately show ?thesis
    using new by (simp add: ne)
qed

lemma steady_2_sleeps:
  "sleepsOf (newEvents ex_world (snd (waitForRunCompletion ex_opts (steady_env 2) ''T'' ''run_1'' ex_world)))
   = [1000, 1500, 2250]"
  by (simp add: newEvents_def waitForRunCompletion_def waitFrom_def finishWait_def pollLoop.simps pollOnce_def
      sleep_def emit_def ex_world_def ex_opts_def steady_env_def maxWaitTime_def nextDelay_def maxDelay_def)

theorem backoff_schedule_witness:
  "sleepsOf (newEvents ex_world (snd (waitForRunCompletion ex_opts (steady_env 2) ''T'' ''run_1'' ex_world)))
     = [1000, 1500, 2250]
   \<and> map backoff [0..<3] = [1000, 1500, 2250]
   \<and> sorted (sleepsOf (newEvents ex_world (snd (waitForRunCompletion ex_opts (steady_env 2) ''T'' ''run_1'' ex_world))))"
  using backoff_schedule [of ex_world ex_opts "steady_env 2" "''T''" "''run_1''"] steady_2_sleeps
  by (simp add: upt_rec numeral_3_eq_3)

text \<open>
  C5. At a round of the loop whose poll answers \<open>requires_action\<close>: with a handler
  configured and a \<open>submit_tool_outputs\<close> action, the handler is called with the thread,
  the run and the tool calls, its outputs are submitted, and the wait goes on as from
  \<open>in_progress\<close>; an error of the handler is the error of the wait; with no handler the
  wait fails with the status \<open>requires_action\<close>.
\<close>

theorem requires_action_handling:
  assumes polling: "status \<in> set [''in_progress'', ''queued'']"
    and intime: "clock w - startTime \<le> maxWaitTime"
    and answer: "retrieve_result env k = Inr run"
    and paused: "run_status run = ''requires_action''"
  shows "(\<forall>handler ra toolCalls. handleRequiresAction opts = Some handler \<longrightarrow> required_action run = Some ra \<longrightarrow>
            ra_type ra = ''submit_tool_outputs'' \<longrightarrow> toolCalls = map toolCallOf (ra_tool_calls ra) \<longrightarrow>
            (\<forall>toolOutputs. handler tid rid toolCalls = Inr toolOutputs \<longrightarrow> submit_error env k = None \<longrightarrow>
               waitFrom opts env tid rid startTime k status delay w =
               waitFrom opts env tid rid startTime (Suc k) ''in_progress'' (nextDelay delay)
                 (emit (SubmitToolOutputs tid rid toolOutputs)
                   (emit (HandleRequiresAction tid rid toolCalls)
                     ((emit (RetrieveRun tid rid) (sleep delay w))
                        \<lparr>clock := clock (sleep delay w) + int (latency env k)\<rparr>))))
            \<and> (\<forall>e. handler tid rid toolCalls = Inl e \<longrightarrow>
                  fst (waitFrom opts env tid rid startTime k status delay w) = Inl e))
       \<and> (handleRequiresAction opts = None \<longrightarrow>
            fst (waitFrom opts env tid rid startTime k status delay w) = Inl (RunEnded ''requires_action'' tid))"
proof (intro conjI allI impI)
  fix handler ra toolCalls toolOutputs
  assume h: "handleRequiresAction opts = Some handler" "required_action run = Some ra"
    "ra_type ra = ''submit_tool_outputs''" "toolCalls = map toolCallOf (ra_tool_calls ra)"
    "handler tid rid toolCalls = Inr toolOutputs" "submit_error env k = None"
  have "pollOnce opts env tid rid k delay w =
          (Inr (''in_progress'', nextDelay delay),
           emit (SubmitToolOutputs tid rid toolOutputs)
             (emit (HandleRequiresAction tid rid toolCalls)
               ((emit (RetrieveRun tid rid) (sleep delay w))
                  \<lparr>clock := clock (sleep delay w) + int (latency env k)\<rparr>)))"
    using h answer paused by (simp add: pollOnce_def Let_def)
  then show "waitFrom opts env tid rid startTime k status delay w =
               waitFrom opts env tid rid startTime (Suc k) ''in_progress'' (nextDelay delay)
                 (emit (SubmitToolOutputs tid rid toolOutputs)
                   (emit (HandleRequiresAction tid rid toolCalls)
                     ((emit (RetrieveRun tid rid) (sleep delay w))
                        \<lparr>clock := clock (sleep delay w) + int (latency env k)\<rparr>)))"
    by (rule waitFrom_round [OF polling intime])
next
  fix handler ra toolCalls e
  assume h: "handleRequiresAction opts = Some handler" "required_action run = Some ra"
    "ra_type ra = ''submit_tool_outputs''" "toolCalls = map toolCallOf (ra_tool_calls ra)"
    "handler tid rid toolCalls = Inl e"
  have "fst (pollOnce opts env tid rid k delay w) = Inl e"
    using h answer paused by (simp add: pollOnce_def Let_def)
  then obtain w1 where "pollOnce opts env tid rid k delay w = (Inl e, w1)"
    by (cases "pollOnce opts env tid rid k delay w") simp
  then show "fst (waitFrom opts env tid rid startTime k status delay w) = Inl e"
    using waitFrom_thrown [OF polling intime] by simp
next
  assume h: "handleRequiresAction opts = None"
  have "fst (pollOnce opts env tid rid k delay w) = Inr (''requires_action'', nextDelay delay)"
    using h answer paused by (simp add: pollOnce_def Let_def)
  then obtain w1 where "pollOnce opts env tid rid k delay w = (Inr (''requires_action'', nextDelay delay), w1)"
    by (cases "pollOnce opts env tid rid k delay w") simp
  then have "waitFrom opts env tid rid startTime k status delay w
             = waitFrom opts env tid rid startTime (Suc k) ''requires_action'' (nextDelay delay) w1"
    by (rule waitFrom_round [OF polling intime])
  also have "\<dots> = (finishWait tid (Inr ''requires_action''), w1)"
    by (rule waitFrom_exit) simp
  finally show "fst (waitFrom opts env tid rid startTime k status delay w) = Inl (RunEnded ''requires_action'' tid)"
    by (simp add: finishWait_def)
qed

theorem requires_action_handling_witness:
  "waitFrom (ex_opts\<lparr>handleRequiresAction := Some ex_handler\<rparr>) tool_env ''T'' ''run_1'' (clock ex_world) 0
      ''in_progress'' 1000 ex_world
   = waitFrom (ex_opts\<lparr>handleRequiresAction := Some ex_handler\<rparr>) tool_env ''T'' ''run_1'' (clock ex_world) 1
      ''in_progress'' 1500
      (ex_world\<lparr>clock := 1700000001000, trace :=
         [(1700000000000, Sleep 1000), (1700000001000, RetrieveRun ''T'' ''run_1''),
          (1700000001000, HandleRequiresAction ''T'' ''run_1'' (ra_tool_calls ex_action)),
          (1700000001000, SubmitToolOutputs ''T'' ''run_1'' [\<lparr>tool_call_id = ''call_1'', tool_output = ''sunny''\<rparr>])]\<rparr>)
   \<and> fst (waitFrom (ex_opts\<lparr>handleRequiresAction := Some failing_handler\<rparr>) tool_env ''T'' ''run_1'' (clock ex_world) 0
      ''in_progress'' 1000 ex_world) = Inl (Thrown ''handler failed'')
   \<and> fst (waitFrom ex_opts tool_env ''T'' ''run_1'' (clock ex_world) 0 ''in_progress'' 1000 ex_world)
      = Inl (RunEnded ''requires_action'' ''T'')"
proof -
  let ?run = "\<lparr>run_status = ''requires_action'', required_action = Some ex_action\<rparr>"
  have p1: "''in_progress'' \<in> set [''in_progress'', ''queued'']" by simp
  have p2: "clock ex_world - clock ex_world \<le> maxWaitTime" by (simp add: maxWaitTime_def)
  have p3: "retrieve_result tool_env 0 = Inr ?run" by (simp add: tool_env_def)
  have p4: "run_status ?run = ''requires_action''" by simp
  note t = requires_action_handling [OF p1 p2 p3 p4, where tid = "''T''" and rid = "''run_1''" and delay = 1000]
  show ?thesis
    using t [of "ex_opts\<lparr>handleRequiresAction := Some ex_handler\<rparr>"]
      t [of "ex_opts\<lparr>handleRequiresAction := Some failing_handler\<rparr>"]
      t [of ex_opts]
    by (simp add: ex_opts_def ex_handler_def failing_handler_def ex_action_def toolCallOf_def tool_env_def
        ex_world_def sleep_def emit_def nextDelay_def maxDelay_def)
qed

text \<open>
  C6 (amended). The ceiling is checked at the top of each round, before its sleep: every
  round starts no later than \<open>maxWaitTime\<close> (300000 ms) after the start; the whole wait
  exceeds the ceiling by at most the last round, that is by at most 15000 ms of delay
  plus the time \<open>L\<close> the round's calls take; and when a round would start past the
  ceiling with the run still \<open>in_progress\<close> or \<open>queued\<close>, the wait fails with the
  timeout error and makes no further call.
\<close>

theorem poll_ceiling:
  "list_all (\<lambda>t. t - clock w \<le> maxWaitTime)
     (sleepStarts (newEvents w (snd (waitForRunCompletion opts env tid rid w))))
   \<and> ((\<forall>k. int (latency env k) \<le> L) \<longrightarrow>
        clock (snd (waitForRunCompletion opts env tid rid w)) - clock w \<le> maxWaitTime + 15000 + L)
   \<and> (status \<in> set [''in_progress'', ''queued''] \<longrightarrow> clock v - startTime > maxWaitTime \<longrightarrow>
        waitFrom opts env tid rid startTime k status delay v = (Inl (RunTimeout tid), v))"
proof (intro conjI impI)
  obtain new where new: "trace (snd (waitForRunCompletion opts env tid rid w)) = trace w @ new"
    "list_all (\<lambda>t. t - clock w \<le> maxWaitTime) (sleepStarts new)"
    using waitForRunCompletion_trace by blast
  then show "list_all (\<lambda>t. t - clock w \<le> maxWaitTime)
     (sleepStarts (newEvents w (snd (waitForRunCompletion opts env tid rid w))))"
    by (simp add: newEvents_def)
next
  assume "\<forall>k. int (latency env k) \<le> L"
  then show "clock (snd (waitForRunCompletion opts env tid rid w)) - clock w \<le> maxWaitTime + 15000 + L"
    by (rule waitForRunCompletion_duration)
next
  assume "status \<in> set [''in_progress'', ''queued'']" "clock v - startTime > maxWaitTime"
  then show "waitFrom opts env tid rid startTime k status delay v = (Inl (RunTimeout tid), v)"
    by (rule waitFrom_timeout)
qed

lemma steady_2_run:
  "sleepStarts (newEvents ex_world (snd (waitForRunCompletion ex_opts (steady_env 2) ''T'' ''run_1'' ex_world)))
     = [1700000000000, 1700000001000, 1700000002500]
   \<and> clock (snd (waitForRunCompletion ex_opts (steady_env 2) ''T'' ''run_1'' ex_world)) = 1700000004750"
  by (simp add: newEvents_def waitForRunCompletion_def waitFrom_def finishWait_def pollLoop.simps pollOnce_def
      sleep_def emit_def ex_world_def ex_opts_def steady_env_def maxWaitTime_def nextDelay_def maxDelay_def)

theorem poll_ceiling_witness:
  "list_all (\<lambda>t. t - clock ex_world \<le> maxWaitTime) [1700000000000, 1700000001000, 1700000002500]
   \<and> sleepStarts (newEvents ex_world (snd (waitForRunCompletion ex_opts (steady_env 2) ''T'' ''run_1'' ex_world)))
       = [1700000000000, 1700000001000, 1700000002500]
   \<and> clock (snd (waitForRunCompletion ex_opts (steady_env 2) ''T'' ''run_1'' ex_world)) - clock ex_world
       \<le> maxWaitTime + 15000 + 0
   \<and> waitFrom ex_opts (steady_env 2) ''T'' ''run_1'' 1699999000000 5 ''in_progress'' 15000 ex_world
       = (Inl (RunTimeout ''T''), ex_world)"
  using poll_ceiling [where w = ex_world and opts = ex_opts and env = "steady_env 2" and tid = "''T''"
      and rid = "''run_1''" and L = 0 and status = "''in_progress''" and startTime = 1699999000000
      and k = 5 and delay = 15000 and v = ex_world]
    steady_2_run
  by (simp add: steady_env_def ex_world_def maxWaitTime_def)

text \<open>
  The claim as stated fails: with instant calls and a run that is \<open>in_progress\<close> for 24
  polls, the first seven rounds sleep 1000, 1500, 2250, 3375, 5062, 7593 and 11390 whole
  milliseconds and the next seventeen 15000 ms each, so the 25th round starts 287170 ms
  after the start, within the ceiling; it sleeps 15000 ms and polls at 302170 ms, past
  the ceiling of 300000 ms; the poll answers \<open>completed\<close> and the wait returns it
  instead of timing out.
\<close>

theorem poll_ceiling_counterexample:
  "fst (waitForRunCompletion ex_opts (steady_env 24) ''T'' ''run_1'' ex_world) = Inr ''completed''
   \<and> clock (snd (waitForRunCompletion ex_opts (steady_env 24) ''T'' ''run_1'' ex_world)) - clock ex_world = 302170
   \<and> last (trace (snd (waitForRunCompletion ex_opts (steady_env 24) ''T'' ''run_1'' ex_world)))
       = (clock ex_world + 302170, RetrieveRun ''T'' ''run_1'')
   \<and> maxWaitTime < 302170"
  by (simp add: waitForRunCompletion_def waitFrom_def finishWait_def pollLoop.simps pollOnce_def sleep_def
      emit_def ex_world_def ex_opts_def steady_env_def maxWaitTime_def nextDelay_def maxDelay_def)

section \<open>Job ids\<close>

lemma less_append_same: "(p @ xs < p @ ys) \<longleftrightarrow> (xs < ys)" for xs :: "'a::linorder list"
  by (induction p) simp_all

lemma less_snoc_same_length:
  "length xs = length ys \<Longrightarrow> (xs @ [a] < ys @ [b]) \<longleftrightarrow> (xs < ys \<or> xs = ys \<and> a < b)"
  for xs :: "'a::linorder list"
  by (induction xs ys rule: list_induct2) auto

lemma digit_char_less: "a < 10 \<Longrightarrow> b < 10 \<Longrightarrow> (digit_char a < digit_char b) \<longleftrightarrow> (a < b)"
  by (simp add: digit_char_def less_char_def)

lemma digits_nonempty: "digits n \<noteq> []"
  by (subst digits.simps) simp

lemma digits_length_one: "length (digits n) = Suc 0 \<longleftrightarrow> n < 10"
  by (subst digits.simps) (simp add: digits_nonempty)

lemma split_digits_less:
  "10 * a + r < 10 * b + s \<Longrightarrow> r < 10 \<Longrightarrow> s < 10 \<Longrightarrow> a < b \<or> (a = b \<and> r < s)"
  for a b r s :: nat
  by linarith

lemma digits_less:
  "length (digits m) = length (digits n) \<Longrightarrow> m < n \<Longrightarrow> digits m < digits n"
proof (induction m arbitrary: n rule: digits.induct)
  case (1 m)
  show ?case
  proof (cases "m < 10")
    case True
    then have "length (digits m) = Suc 0" by (simp add: digits_length_one)
    with "1.prems"(1) have "length (digits n) = Suc 0" by simp
    then have "n < 10" by (simp only: digits_length_one)
    with True "1.prems" show ?thesis
      by (simp add: digits.simps [of m] digits.simps [of n] digit_char_less)
  next
    case False
    with "1.prems" have n: "\<not> n < 10" by simp
    have dm: "digits m = digits (m div 10) @ [digit_char (m mod 10)]"
      using False by (subst digits.simps) simp
    have dn: "digits n = digits (n div 10) @ [digit_char (n mod 10)]"
      using n by (subst digits.simps) simp
    have len: "length (digits (m div 10)) = length (digits (n div 10))"
      using "1.prems"(1) dm dn by simp
    have "10 * (m div 10) + m mod 10 < 10 * (n div 10) + n mod 10"
      using "1.prems"(2) by (simp only: mult_div_mod_eq)
    then have "m div 10 < n div 10 \<or> (m div 10 = n div 10 \<and> m mod 10 < n mod 10)"
      by (rule split_digits_less) simp_all
    then have "digits (m div 10) < digits (n div 10)
        \<or> (digits (m div 10) = digits (n div 10) \<and> digit_char (m mod 10) < digit_char (n mod 10))"
      using "1.IH" [OF False len] by (auto simp: digit_char_less)
    then show ?thesis
      using len by (simp add: dm dn less_snoc_same_length)
  qed
qed

text \<open>
  C9 (amended). The job id \<open>addMessageToThread\<close> returns is a function of the thread id
  and the clock reading alone, and for two non-negative timestamps whose decimal
  renderings have the same number of digits (as all clock readings between September 2001
  and November 2286 have, with 13 digits), the smaller timestamp gets the lexically smaller
  id.
\<close>

theorem job_id_order:
  "fst (addMessageToThread opts tid msg instr w) = makeJobId tid (clock w)
   \<and> (0 \<le> t1 \<longrightarrow> t1 < t2 \<longrightarrow> length (toString t1) = length (toString t2) \<longrightarrow>
        makeJobId tid t1 < makeJobId tid t2)"
proof (intro conjI impI)
  show "fst (addMessageToThread opts tid msg instr w) = makeJobId tid (clock w)"
    by (simp add: addMessageToThread_def Let_def)
next
  assume "0 \<le> t1" "t1 < t2" "length (toString t1) = length (toString t2)"
  then have "digits (nat t1) < digits (nat t2)"
    by (intro digits_less) (simp_all add: toString_def)
  then show "makeJobId tid t1 < makeJobId tid t2"
    using \<open>0 \<le> t1\<close> \<open>t1 < t2\<close> by (simp add: makeJobId_def toString_def less_append_same)
qed

theorem job_id_order_witness:
  "fst (addMessageToThread ex_opts ''T'' ''hello'' None ex_world) = ''thread_T_1700000000000''
   \<and> makeJobId ''T'' 1700000000000 < makeJobId ''T'' 1700000000001"
  using job_id_order [of ex_opts "''T''" "''hello''" None ex_world 1700000000000 1700000000001]
  by (simp add: makeJobId_def toString_def digits.simps digit_char_def char_of_def bit_0 bit_Suc ex_world_def)

text \<open>
  The claim as stated fails for timestamps with different numbers of digits: the ids are
  not zero-padded, so the id of 9999999999999 is not below the id of 10000000000000.
\<close>

theorem job_id_order_counterexample:
  "(9999999999999 :: int) < 10000000000000
   \<and> \<not> makeJobId ''T'' 9999999999999 < makeJobId ''T'' 10000000000000"
  by (simp add: makeJobId_def toString_def digits.simps digit_char_def char_of_def bit_0 bit_Suc less_char_def)

section \<open>The Thread Job Index\<close>

lemma filterBoolean_append: "filterBoolean (xs @ ys) = filterBoolean xs @ filterBoolean ys"
  by (induction xs rule: filterBoolean.induct) simp_all

lemma fetchBatches_fst:
  "fst (fetchBatches w jobIds i (jobs, calls)) = jobs @ filterBoolean (map (queue_jobs w) (drop i jobIds))"
proof (induction w jobIds i "(jobs, calls)" arbitrary: jobs calls rule: fetchBatches.induct)
  case (1 w jobIds i jobs calls)
  show ?case
  proof (cases "i < length jobIds")
    case True
    have "drop i jobIds = slice i (i + batchSize) jobIds @ drop (i + batchSize) jobIds"
      by (simp add: slice_def add.commute [of i] flip: drop_drop)
    then show ?thesis
      using True "1.hyps" [OF True refl refl]
      by (subst fetchBatches.simps) (simp add: Let_def filterBoolean_append)
  next
    case False
    then show ?thesis by (subst fetchBatches.simps) simp
  qed
qed

lemma fetchBatches_snd:
  "\<exists>rest. snd (fetchBatches w jobIds i (jobs, calls)) = calls @ rest \<and> concat rest = drop i jobIds
      \<and> list_all (\<lambda>b. b \<noteq> [] \<and> length b \<le> batchSize) rest"
proof (induction w jobIds i "(jobs, calls)" arbitrary: jobs calls rule: fetchBatches.induct)
  case (1 w jobIds i jobs calls)
  show ?case
  proof (cases "i < length jobIds")
    case True
    let ?b = "slice i (i + batchSize) jobIds"
    have split: "drop i jobIds = ?b @ drop (i + batchSize) jobIds"
      by (simp add: slice_def add.commute [of i] flip: drop_drop)
    have b: "?b \<noteq> [] \<and> length ?b \<le> batchSize"
      using True by (simp add: slice_def batchSize_def)
    obtain rest where rest:
      "snd (fetchBatches w jobIds (i + batchSize) (jobs @ filterBoolean (map (queue_jobs w) ?b), calls @ [?b]))
         = (calls @ [?b]) @ rest"
      "concat rest = drop (i + batchSize) jobIds"
      "list_all (\<lambda>b. b \<noteq> [] \<and> length b \<le> batchSize) rest"
      using "1.hyps" [OF True refl refl] by blast
    have "snd (fetchBatches w jobIds i (jobs, calls)) = calls @ (?b # rest)"
      using True rest(1) by (subst fetchBatches.simps) (simp add: Let_def)
    moreover have "concat (?b # rest) = drop i jobIds"
      using rest(2) split by simp
    moreover have "list_all (\<lambda>b. b \<noteq> [] \<and> length b \<le> batchSize) (?b # rest)"
      using rest(3) b by simp
    ultimately show ?thesis by blast
  next
    case False
    then show ?thesis by (subst fetchBatches.simps) simp
  qed
qed

lemma getJobsByThreadId_eq:
  "getJobsByThreadId opts tid w = filterBoolean (map (queue_jobs w) (redis_sets w (threadJobsKey opts tid)))"
  by (simp add: getJobsByThreadId_def Let_def fetchBatches_fst)

lemma sorted_getNewerJobs:
  "sorted (map (\<lambda>job. timestamp (data job)) (getNewerJobsByThreadId opts tid ts w))"
  by (simp add: getNewerJobsByThreadId_def)

text \<open>
  C8 (amended). \<open>getJobsByThreadId\<close> returns the thread's live jobs in the order in which
  the index answers their ids (it does not sort; \<open>getNewerJobsByThreadId\<close> and the worker
  callback sort what it returns by ascending timestamp), skips the ids whose job the
  queue no longer holds, and fetches the ids in consecutive non-empty batches of at most
  20.
\<close>

theorem thread_jobs_listing:
  "getJobsByThreadId opts tid w = filterBoolean (map (queue_jobs w) (redis_sets w (threadJobsKey opts tid)))
   \<and> concat (getJobsByThreadId_batches opts tid w) = redis_sets w (threadJobsKey opts tid)
   \<and> list_all (\<lambda>b. b \<noteq> [] \<and> length b \<le> 20) (getJobsByThreadId_batches opts tid w)
   \<and> sorted (map (\<lambda>job. timestamp (data job)) (getNewerJobsByThreadId opts tid ts w))"
proof -
  obtain rest where rest:
    "snd (fetchBatches w (redis_sets w (threadJobsKey opts tid)) 0 ([], [])) = [] @ rest"
    "concat rest = drop 0 (redis_sets w (threadJobsKey opts tid))"
    "list_all (\<lambda>b. b \<noteq> [] \<and> length b \<le> batchSize) rest"
    using fetchBatches_snd by blast
  have "concat (getJobsByThreadId_batches opts tid w) = redis_sets w (threadJobsKey opts tid)"
    using rest by (simp add: getJobsByThreadId_batches_def Let_def)
  moreover have "list_all (\<lambda>b. b \<noteq> [] \<and> length b \<le> 20) (getJobsByThreadId_batches opts tid w)"
    using rest by (simp add: getJobsByThreadId_batches_def Let_def batchSize_def)
  ultimately show ?thesis
    by (simp add: getJobsByThreadId_eq sorted_getNewerJobs)
qed

text \<open>
  The claim as stated fails on the order: when the index answers the id of \<open>job_B\<close> before
  the id of \<open>job_A\<close>, so does \<open>getJobsByThreadId\<close>, although \<open>job_A\<close> is older.
\<close>

theorem thread_jobs_listing_counterexample:
  "getJobsByThreadId ex_opts ''T'' (busy_world [job_id job_B, job_id job_A]) = [job_B, job_A]
   \<and> \<not> sorted (map (\<lambda>job. timestamp (data job))
                (getJobsByThreadId ex_opts ''T'' (busy_world [job_id job_B, job_id job_A])))"
  by (simp add: getJobsByThreadId_def fetchBatches.simps slice_def batchSize_def threadJobsKey_def
      busy_world_def ex_world_def ex_opts_def job_A_def job_B_def job_C_def job_D_def)

theorem thread_jobs_listing_witness:
  "getJobsByThreadId ex_opts ''T'' (busy_world [job_id job_B, ''thread_T_1699999980000'', job_id job_A])
     = [job_B, job_A]
   \<and> getJobsByThreadId_batches ex_opts ''T'' (busy_world [job_id job_B, ''thread_T_1699999980000'', job_id job_A])
     = [[job_id job_B, ''thread_T_1699999980000'', job_id job_A]]
   \<and> map job_id (getNewerJobsByThreadId ex_opts ''T'' 1699999989000
        (busy_world [job_id job_B, ''thread_T_1699999980000'', job_id job_A]))
     = [job_id job_A, job_id job_B]"
  using thread_jobs_listing [of ex_opts "''T''"
      "busy_world [job_id job_B, ''thread_T_1699999980000'', job_id job_A]" 1699999989000]
  by (simp add: getJobsByThreadId_batches_def getNewerJobsByThreadId_def fetchBatches.simps slice_def batchSize_def threadJobsKey_def
      busy_world_def ex_world_def ex_opts_def job_A_def job_B_def job_C_def job_D_def)


section \<open>Facts about the batch processor\<close>

lemma promotesOf_append: "promotesOf (xs @ ys) = promotesOf xs @ promotesOf ys"
  by (induction xs rule: promotesOf.induct) (auto split: event.splits)

lemma promotesOf_run_events: "list_all (\<lambda>(t, ev). isRunEvent ev) es \<Longrightarrow> promotesOf es = []"
  by (induction es rule: promotesOf.induct) (auto split: event.splits)

lemma pollOnce_run_events:
  "\<exists>new. trace (snd (pollOnce opts env tid rid k delay w)) = trace w @ new
      \<and> list_all (\<lambda>(t, ev). isRunEvent ev) new"
  by (simp add: pollOnce_def sleep_def emit_def Let_def split: sum.splits option.splits prod.splits)

lemma pollLoop_run_events:
  "\<exists>new. trace (snd (pollLoop opts env tid rid startTime k status delay w)) = trace w @ new
      \<and> list_all (\<lambda>(t, ev). isRunEvent ev) new"
proof (induction rule: pollLoop_rule)
  case (thrown k status delay w e w1)
  then show ?case using pollOnce_run_events [of opts env tid rid k delay w] by simp
next
  case (round k status delay w status' delay' w1 res)
  obtain new1 where n1: "trace w1 = trace w @ new1" "list_all (\<lambda>(t, ev). isRunEvent ev) new1"
    using pollOnce_run_events [of opts env tid rid k delay w] round by auto
  from round obtain new2 where n2: "trace (snd res) = trace w1 @ new2" "list_all (\<lambda>(t, ev). isRunEvent ev) new2"
    by auto
  show ?case
    by (rule exI [of _ "new1 @ new2"]) (use n1 n2 in simp)
qed simp_all

lemma waitForRunCompletion_run_events:
  "\<exists>new. trace (snd (waitForRunCompletion opts env tid rid w)) = trace w @ new
      \<and> list_all (\<lambda>(t, ev). isRunEvent ev) new"
  using pollLoop_run_events by (simp add: waitForRunCompletion_snd)

lemma waitForRunCompletion_frame:
  "redis_strings (snd (waitForRunCompletion opts env tid rid w)) = redis_strings w \<and>
   redis_sets (snd (waitForRunCompletion opts env tid rid w)) = redis_sets w \<and>
   queue_jobs (snd (waitForRunCompletion opts env tid rid w)) = queue_jobs w"
  using pollLoop_frame by (simp add: waitForRunCompletion_snd)

lemma sorted_map_last: "sorted (map f xs) \<Longrightarrow> x \<in> set xs \<Longrightarrow> f x \<le> f (last xs)"
  by (induction xs) auto

lemma sorted_map_hd: "sorted (map f xs) \<Longrightarrow> x \<in> set xs \<Longrightarrow> f (hd xs) \<le> f x"
  by (induction xs) auto

lemma sort_key_Nil_iff: "sort_key f xs = [] \<longleftrightarrow> xs = []"
  by (metis length_0_conv length_sort)

text \<open>The world a successful acquisition leaves, and what \<open>processMessages\<close> does from it.\<close>

lemma processMessages_free:
  assumes "redis_strings w (lockKey opts tid) = None"
  shows "processMessages opts env tid jobs w =
          (fst (processMessages_try opts env tid jobs
                 (w\<lparr>redis_strings := (redis_strings w)(lockKey opts tid \<mapsto> toString (clock w))\<rparr>)),
           snd (releaseLock (lockKey opts tid) (toString (clock w))
                 (snd (processMessages_try opts env tid jobs
                   (w\<lparr>redis_strings := (redis_strings w)(lockKey opts tid \<mapsto> toString (clock w))\<rparr>)))))"
  using assms by (simp add: processMessages_def acquireLock_def releaseLock_def Let_def split: prod.splits)

lemma releaseLock_trace: "trace (snd (releaseLock key val w)) = trace w"
  by (simp add: releaseLock_def Let_def)

lemma afterRun_trace:
  "trace (snd (afterRun opts tid jobs maxTimestamp rid status w)) =
   trace w @ (case getNewerJobsByThreadId opts tid maxTimestamp
                    (removeJobsFromThreadIndex opts tid (filter (\<lambda>i. i \<noteq> []) (map job_id jobs))
                       (fold remove_job jobs w)) of
                [] \<Rightarrow> [] | job # _ \<Rightarrow> [(clock w, Promote (job_id job))])"
proof -
  have c: "clock (fold remove_job jobs v) = clock v \<and> trace (fold remove_job jobs v) = trace v" for v
    by (induction jobs arbitrary: v) (simp_all add: remove_job_def)
  show ?thesis
    by (simp add: afterRun_def Let_def emit_def removeJobsFromThreadIndex_def c split: list.splits)
qed

lemma try_trace:
  assumes "jobs \<noteq> []"
  shows "\<exists>rest. trace (snd (processMessages_try opts env tid jobs w)) =
           trace w @ (clock w, CreateMessage tid (join newline
                        (map (\<lambda>job. message (data job)) (sort_key (\<lambda>job. timestamp (data job)) jobs)))) # rest
         \<and> (createMessage_error env = None \<longrightarrow>
              (\<exists>rest'. rest = (clock w, CreateRun tid
                   (if cycleInstructions opts (last (sort_key (\<lambda>job. timestamp (data job)) jobs)) = [] then None
                    else Some (cycleInstructions opts (last (sort_key (\<lambda>job. timestamp (data job)) jobs))))) # rest'))"
proof -
  have s: "sort_key (\<lambda>job. timestamp (data job)) jobs \<noteq> []"
    using assms by (simp add: sort_key_Nil_iff)
  show ?thesis
  proof (cases "createMessage_error env")
    case (Some e)
    then show ?thesis by (simp add: processMessages_try_def s Let_def emit_def)
  next
    case None
    show ?thesis
    proof (cases "createRun_result env")
      case (Inl e)
      then show ?thesis using None by (simp add: processMessages_try_def s Let_def emit_def)
    next
      case (Inr rid)
      let ?sorted = "sort_key (\<lambda>job. timestamp (data job)) jobs"
      let ?mark = "Max (set (map (\<lambda>job. timestamp (data job)) ?sorted))"
      let ?w3 = "emit (CreateRun tid (if cycleInstructions opts (last ?sorted) = [] then None
                    else Some (cycleInstructions opts (last ?sorted))))
                  (emit (CreateMessage tid (join newline (map (\<lambda>job. message (data job)) ?sorted)))
                    (w\<lparr>redis_strings := (redis_strings w)(lastProcessedKey opts tid \<mapsto> toString ?mark)\<rparr>))"
      obtain r w4 where run: "waitForRunCompletion opts env tid rid ?w3 = (r, w4)"
        by (cases "waitForRunCompletion opts env tid rid ?w3")
      obtain new where new: "trace w4 = trace ?w3 @ new"
        using waitForRunCompletion_run_events [of opts env tid rid ?w3] run by auto
      have tr5: "trace (interfere env w4) = trace ?w3 @ new"
        using new by (simp add: interfere_def Let_def)
      have tr3: "trace ?w3 = trace w @ [(clock w, CreateMessage tid (join newline (map (\<lambda>job. message (data job)) ?sorted))),
          (clock w, CreateRun tid (if cycleInstructions opts (last ?sorted) = [] then None
                    else Some (cycleInstructions opts (last ?sorted))))]"
        by (simp add: emit_def)
      show ?thesis
      proof (cases r)
        case (Inl e)
        then have "snd (processMessages_try opts env tid jobs w) = interfere env w4"
          using None \<open>createRun_result env = Inr rid\<close> run
          by (simp add: processMessages_try_def s Let_def)
        then show ?thesis using None tr5 tr3 by simp
      next
        case (Inr status)
        then have "snd (processMessages_try opts env tid jobs w)
            = snd (afterRun opts tid ?sorted ?mark rid status (interfere env w4))"
          using None \<open>createRun_result env = Inr rid\<close> run
          by (simp add: processMessages_try_def s Let_def split: prod.splits)
        then show ?thesis using None tr5 tr3 by (simp add: afterRun_trace)
      qed
    qed
  qed
qed

lemma processMessages_new_events:
  assumes free: "redis_strings w (lockKey opts tid) = None" and nonempty: "jobs \<noteq> []"
  shows "\<exists>rest. newEvents w (snd (processMessages opts env tid jobs w)) =
           (clock w, CreateMessage tid (join newline
              (map (\<lambda>job. message (data job)) (sort_key (\<lambda>job. timestamp (data job)) jobs)))) # rest
         \<and> (createMessage_error env = None \<longrightarrow>
              (\<exists>rest'. rest = (clock w, CreateRun tid
                   (if cycleInstructions opts (last (sort_key (\<lambda>job. timestamp (data job)) jobs)) = [] then None
                    else Some (cycleInstructions opts (last (sort_key (\<lambda>job. timestamp (data job)) jobs))))) # rest'))"
  using try_trace [OF nonempty, of opts env tid
      "w\<lparr>redis_strings := (redis_strings w)(lockKey opts tid \<mapsto> toString (clock w))\<rparr>"]
  by (auto simp: processMessages_free [OF free] releaseLock_trace newEvents_def)

lemma fold_remove_job_frame:
  "clock (fold remove_job jobs v) = clock v \<and> trace (fold remove_job jobs v) = trace v
   \<and> redis_strings (fold remove_job jobs v) = redis_strings v
   \<and> redis_sets (fold remove_job jobs v) = redis_sets v"
  by (induction jobs arbitrary: v) (simp_all add: remove_job_def)

lemma fold_remove_job_queue:
  "queue_jobs (fold remove_job jobs v) i = (if i \<in> job_id ` set jobs then None else queue_jobs v i)"
  by (induction jobs arbitrary: v) (auto simp: remove_job_def)

lemma afterRun_strings:
  "redis_strings (snd (afterRun opts tid jobs maxTimestamp rid status w)) = redis_strings w"
  by (simp add: afterRun_def Let_def emit_def removeJobsFromThreadIndex_def fold_remove_job_frame
      split: list.splits)

lemma afterRun_stores:
  "queue_jobs (snd (afterRun opts tid jobs maxTimestamp rid status w))
     = queue_jobs (removeJobsFromThreadIndex opts tid (filter (\<lambda>i. i \<noteq> []) (map job_id jobs))
                     (fold remove_job jobs w))
   \<and> redis_sets (snd (afterRun opts tid jobs maxTimestamp rid status w))
     = redis_sets (removeJobsFromThreadIndex opts tid (filter (\<lambda>i. i \<noteq> []) (map job_id jobs))
                     (fold remove_job jobs w))"
  by (simp add: afterRun_def Let_def emit_def split: list.splits)

lemma afterRun_result:
  "fst (afterRun opts tid jobs maxTimestamp rid status w) =
     \<lparr>pr_threadId = tid, messagesProcessed = length jobs,
      processedJobIds = filter (\<lambda>i. i \<noteq> []) (map job_id jobs), runId = rid, pr_status = status\<rparr>"
  by (simp add: afterRun_def Let_def)

lemma removed_queue:
  "job \<in> set jobs \<Longrightarrow>
   queue_jobs (removeJobsFromThreadIndex opts tid ids (fold remove_job jobs w)) (job_id job) = None"
  by (simp add: removeJobsFromThreadIndex_def fold_remove_job_queue)

lemma removed_index:
  "job \<in> set jobs \<Longrightarrow> job_id job \<noteq> [] \<Longrightarrow>
   job_id job \<notin> set (redis_sets (removeJobsFromThreadIndex opts tid (filter (\<lambda>i. i \<noteq> []) (map job_id jobs)) v)
                       (threadJobsKey opts tid))"
  by (auto simp: removeJobsFromThreadIndex_def filter_empty_conv)

lemma getJobs_stores:
  "redis_sets a = redis_sets b \<Longrightarrow> queue_jobs a = queue_jobs b \<Longrightarrow>
   getJobsByThreadId opts tid a = getJobsByThreadId opts tid b"
  by (simp add: getJobsByThreadId_eq)

lemma getNewer_stores:
  "redis_sets a = redis_sets b \<Longrightarrow> queue_jobs a = queue_jobs b \<Longrightarrow>
   getNewerJobsByThreadId opts tid ts a = getNewerJobsByThreadId opts tid ts b"
  by (simp add: getNewerJobsByThreadId_def getJobs_stores [of a b])

lemma releaseLock_stores:
  "redis_sets (snd (releaseLock key val w)) = redis_sets w \<and> queue_jobs (snd (releaseLock key val w)) = queue_jobs w"
  by (simp add: releaseLock_def Let_def)

lemma lockKey_not_lastProcessedKey: "lockKey opts tid \<noteq> lastProcessedKey opts tid"
  by (simp add: lockKey_def lastProcessedKey_def)

lemma try_preserves_strings:
  assumes quiet: "\<forall>v. redis_strings (concurrent env v) key = redis_strings v key"
    and other: "key \<noteq> lastProcessedKey opts tid"
  shows "redis_strings (snd (processMessages_try opts env tid jobs w)) key = redis_strings w key"
proof -
  have wait: "redis_strings (snd (waitForRunCompletion opts env tid rid v)) = redis_strings v" for rid v
    using waitForRunCompletion_frame by blast
  have inter: "redis_strings (interfere env v) key = redis_strings v key" for v
    using quiet by (simp add: interfere_def Let_def)
  have wait': "waitForRunCompletion opts env tid rid v = (r, w4) \<Longrightarrow> redis_strings w4 = redis_strings v" for rid v r w4
    using wait [of rid v] by simp
  have after': "afterRun opts tid js m rid st v = (res, w6) \<Longrightarrow> redis_strings w6 = redis_strings v" for js m rid st v res w6
    using afterRun_strings [of opts tid js m rid st v] by simp
  show ?thesis
    using other
    by (auto simp: processMessages_try_def Let_def emit_def inter
        split: option.splits sum.splits prod.splits dest!: wait' after')
qed

lemma try_success:
  assumes "fst (processMessages_try opts env tid jobs w) = Inr res"
  shows "jobs \<noteq> [] \<and> (\<exists>rid status w5.
           processMessages_try opts env tid jobs w
             = (Inr res, snd (afterRun opts tid (sort_key (\<lambda>job. timestamp (data job)) jobs)
                  (Max ((\<lambda>job. timestamp (data job)) ` set jobs)) rid status w5))
           \<and> (\<exists>new. trace w5 = trace w @ new \<and> promotesOf new = []))"
proof -
  let ?sorted = "sort_key (\<lambda>job. timestamp (data job)) jobs"
  have ne: "?sorted \<noteq> []"
    using assms by (auto simp: processMessages_try_def Let_def)
  then have jobs: "jobs \<noteq> []" by (simp add: sort_key_Nil_iff)
  have mark: "Max (set (map (\<lambda>job. timestamp (data job)) ?sorted)) = Max ((\<lambda>job. timestamp (data job)) ` set jobs)"
    by simp
  have sent: "createMessage_error env = None"
    using assms ne by (auto simp: processMessages_try_def Let_def split: option.splits)
  obtain rid where rid: "createRun_result env = Inr rid"
    using assms ne sent by (cases "createRun_result env") (auto simp: processMessages_try_def Let_def)
  let ?w3 = "emit (CreateRun tid (if cycleInstructions opts (last ?sorted) = [] then None
                    else Some (cycleInstructions opts (last ?sorted))))
                  (emit (CreateMessage tid (join newline (map (\<lambda>job. message (data job)) ?sorted)))
                    (w\<lparr>redis_strings := (redis_strings w)(lastProcessedKey opts tid \<mapsto>
                        toString (Max ((\<lambda>job. timestamp (data job)) ` set jobs)))\<rparr>))"
  obtain r w4 where run: "waitForRunCompletion opts env tid rid ?w3 = (r, w4)"
    by (cases "waitForRunCompletion opts env tid rid ?w3")
  obtain status where st: "r = Inr status"
    using assms ne sent rid run by (cases r) (auto simp: processMessages_try_def Let_def)
  obtain new where new: "trace w4 = trace ?w3 @ new" "list_all (\<lambda>(t, ev). isRunEvent ev) new"
    using waitForRunCompletion_run_events [of opts env tid rid ?w3] run by auto
  have eq: "processMessages_try opts env tid jobs w
             = (Inr (fst (afterRun opts tid ?sorted (Max ((\<lambda>job. timestamp (data job)) ` set jobs)) rid status (interfere env w4))),
                snd (afterRun opts tid ?sorted (Max ((\<lambda>job. timestamp (data job)) ` set jobs)) rid status (interfere env w4)))"
    using ne sent rid run st by (simp add: processMessages_try_def Let_def split: prod.splits)
  have res: "fst (afterRun opts tid ?sorted (Max ((\<lambda>job. timestamp (data job)) ` set jobs)) rid status (interfere env w4)) = res"
    using assms eq by simp
  have tr: "trace (interfere env w4) = trace w @
      [(clock w, CreateMessage tid (join newline (map (\<lambda>job. message (data job)) ?sorted))),
       (clock w, CreateRun tid (if cycleInstructions opts (last ?sorted) = [] then None
                    else Some (cycleInstructions opts (last ?sorted))))] @ new"
    using new(1) by (simp add: interfere_def Let_def emit_def)
  have "promotesOf ([(clock w, CreateMessage tid (join newline (map (\<lambda>job. message (data job)) ?sorted))),
       (clock w, CreateRun tid (if cycleInstructions opts (last ?sorted) = [] then None
                    else Some (cycleInstructions opts (last ?sorted))))] @ new) = []"
    using promotesOf_run_events [OF new(2)] by (simp add: promotesOf_append)
  with tr eq res jobs show ?thesis by blast
qed

text \<open>
  The interference of \<open>arrival_env\<close> is what \<open>addMessageToThread\<close> does to the stores
  when it runs at clock reading 1700000000500 and the id is new.
\<close>

lemma arrival_is_submission:
  assumes "queue_jobs v ''thread_T_1700000000500'' = None"
    and "''thread_T_1700000000500'' \<notin> set (redis_sets v ''assistant:threadJobs:T'')"
  shows "snd (addMessageToThread ex_opts ''T'' ''E'' None (v\<lparr>clock := 1700000000500\<rparr>))
         = (concurrent arrival_env v)\<lparr>clock := 1700000000500\<rparr>"
  using assms
  by (simp add: addMessageToThread_def makeJobId_def toString_def digits.simps digit_char_def char_of_def
      bit_0 bit_Suc threadJobsKey_def ex_opts_def arrival_env_def steady_env_def job_E_def Let_def)

text \<open>The definitions a concrete scenario is evaluated with.\<close>

lemmas eval_defs =
  processMessages_def processMessages_try_def afterRun_def acquireLock_def releaseLock_def interfere_def
  cycleInstructions_def workerCallback_def lockExists_def
  removeJobsFromThreadIndex_def remove_job_def getNewerJobsByThreadId_def getJobsByThreadId_eq
  threadJobsKey_def lockKey_def lastProcessedKey_def
  waitForRunCompletion_def waitFrom_def finishWait_def pollLoop.simps pollOnce_def sleep_def emit_def
  maxWaitTime_def nextDelay_def maxDelay_def newline_def toString_def digits.simps digit_char_def
  char_of_def bit_0 bit_Suc newEvents_def
  busy_world_def ex_world_def ex_opts_def steady_env_def job_A_def job_B_def job_C_def job_D_def

lemmas listing_defs =
  getJobsByThreadId_def fetchBatches.simps slice_def batchSize_def threadJobsKey_def lockKey_def
  busy_world_def ex_world_def ex_opts_def job_A_def job_B_def job_C_def job_D_def


section \<open>Claims about the batch processor\<close>

text \<open>
  C1. When \<open>processMessages\<close> gets the lock for a non-empty batch, the first call it issues
  creates one message whose body is the jobs' texts, sorted by ascending timestamp (a
  permutation of the batch) and joined with newline characters; when that call succeeds,
  the next call creates the run with the cycle's instructions, which are those of the
  last job of the sorted batch, a job of greatest timestamp: its own instructions when it
  carries non-empty ones, the configured default when it carries none.
\<close>

theorem batch_message_and_instructions:
  assumes free: "redis_strings w (lockKey opts tid) = None" and nonempty: "jobs \<noteq> []"
  shows "sorted (map (\<lambda>job. timestamp (data job)) (sort_key (\<lambda>job. timestamp (data job)) jobs))
     \<and> mset (sort_key (\<lambda>job. timestamp (data job)) jobs) = mset jobs
     \<and> last (sort_key (\<lambda>job. timestamp (data job)) jobs) \<in> set jobs
     \<and> (\<forall>job \<in> set jobs. timestamp (data job)
           \<le> timestamp (data (last (sort_key (\<lambda>job. timestamp (data job)) jobs))))
     \<and> take 1 (newEvents w (snd (processMessages opts env tid jobs w)))
         = [(clock w, CreateMessage tid (join [CHR 0x0A]
              (map (\<lambda>job. message (data job)) (sort_key (\<lambda>job. timestamp (data job)) jobs))))]
     \<and> (createMessage_error env = None \<longrightarrow>
          (newEvents w (snd (processMessages opts env tid jobs w))) ! 1
           = (clock w, CreateRun tid
                (if cycleInstructions opts (last (sort_key (\<lambda>job. timestamp (data job)) jobs)) = [] then None
                 else Some (cycleInstructions opts (last (sort_key (\<lambda>job. timestamp (data job)) jobs))))))
     \<and> (instructions (data (last (sort_key (\<lambda>job. timestamp (data job)) jobs))) = None \<longrightarrow>
          cycleInstructions opts (last (sort_key (\<lambda>job. timestamp (data job)) jobs)) = defaultInstructions opts)
     \<and> (\<forall>s. instructions (data (last (sort_key (\<lambda>job. timestamp (data job)) jobs))) = Some s \<longrightarrow> s \<noteq> [] \<longrightarrow>
          cycleInstructions opts (last (sort_key (\<lambda>job. timestamp (data job)) jobs)) = s)"
proof -
  let ?sorted = "sort_key (\<lambda>job. timestamp (data job)) jobs"
  have ne: "?sorted \<noteq> []" using nonempty by (simp add: sort_key_Nil_iff)
  have srt: "sorted (map (\<lambda>job. timestamp (data job)) ?sorted)" by simp
  have last_in: "last ?sorted \<in> set jobs"
    using last_in_set [OF ne] by simp
  have greatest: "\<forall>job \<in> set jobs. timestamp (data job) \<le> timestamp (data (last ?sorted))"
    using sorted_map_last [OF srt] by simp
  obtain rest where rest: "newEvents w (snd (processMessages opts env tid jobs w)) =
           (clock w, CreateMessage tid (join newline (map (\<lambda>job. message (data job)) ?sorted))) # rest"
     "createMessage_error env = None \<longrightarrow>
              (\<exists>rest'. rest = (clock w, CreateRun tid
                   (if cycleInstructions opts (last ?sorted) = [] then None
                    else Some (cycleInstructions opts (last ?sorted)))) # rest')"
    using processMessages_new_events [OF free nonempty] by blast
  have first: "take 1 (newEvents w (snd (processMessages opts env tid jobs w)))
         = [(clock w, CreateMessage tid (join [CHR 0x0A] (map (\<lambda>job. message (data job)) ?sorted)))]"
    using rest(1) by (simp add: newline_def)
  have second: "createMessage_error env = None \<longrightarrow>
          (newEvents w (snd (processMessages opts env tid jobs w))) ! 1
           = (clock w, CreateRun tid
                (if cycleInstructions opts (last ?sorted) = [] then None
                 else Some (cycleInstructions opts (last ?sorted))))"
    using rest by auto
  have none: "instructions (data (last ?sorted)) = None \<longrightarrow>
          cycleInstructions opts (last ?sorted) = defaultInstructions opts"
    by (simp add: cycleInstructions_def)
  have some: "\<forall>s. instructions (data (last ?sorted)) = Some s \<longrightarrow> s \<noteq> [] \<longrightarrow>
          cycleInstructions opts (last ?sorted) = s"
    by (simp add: cycleInstructions_def)
  from srt last_in greatest first second none some show ?thesis
    by (simp del: sorted_sort_key set_sort)
qed

theorem batch_message_and_instructions_witness:
  "take 2 (newEvents (busy_world [job_id job_B, job_id job_A, job_id job_D])
      (snd (processMessages ex_opts (steady_env 1) ''T'' [job_B, job_A, job_D]
             (busy_world [job_id job_B, job_id job_A, job_id job_D]))))
   = [(1700000000000, CreateMessage ''T'' (''A'' @ [CHR 0x0A] @ ''B'' @ [CHR 0x0A] @ ''D'')),
      (1700000000000, CreateRun ''T'' (Some ''Be brief.''))]
   \<and> take 2 (newEvents (busy_world [job_id job_B, job_id job_A])
      (snd (processMessages ex_opts (steady_env 1) ''T'' [job_B, job_A]
             (busy_world [job_id job_B, job_id job_A]))))
   = [(1700000000000, CreateMessage ''T'' (''A'' @ [CHR 0x0A] @ ''B'')),
      (1700000000000, CreateRun ''T'' (Some ''Reply to all messages logically.''))]"
  using batch_message_and_instructions [of "busy_world [job_id job_B, job_id job_A, job_id job_D]"
      ex_opts "''T''" "[job_B, job_A, job_D]" "steady_env 1"]
    batch_message_and_instructions [of "busy_world [job_id job_B, job_id job_A]"
      ex_opts "''T''" "[job_B, job_A]" "steady_env 1"]
  by (simp add: eval_defs)

text \<open>
  C10. When the instructions of the most recent job are falsy, that is absent or the empty
  string, the cycle uses the configured default instructions, and the run is created with
  them.
\<close>

theorem empty_instructions_fall_back:
  assumes free: "redis_strings w (lockKey opts tid) = None" and nonempty: "jobs \<noteq> []"
    and sent: "createMessage_error env = None"
    and falsy: "instructions (data (last (sort_key (\<lambda>job. timestamp (data job)) jobs))) = Some []
              \<or> instructions (data (last (sort_key (\<lambda>job. timestamp (data job)) jobs))) = None"
  shows "cycleInstructions opts (last (sort_key (\<lambda>job. timestamp (data job)) jobs)) = defaultInstructions opts
     \<and> (newEvents w (snd (processMessages opts env tid jobs w))) ! 1
         = (clock w, CreateRun tid
              (if defaultInstructions opts = [] then None else Some (defaultInstructions opts)))"
proof -
  have ci: "cycleInstructions opts (last (sort_key (\<lambda>job. timestamp (data job)) jobs)) = defaultInstructions opts"
    using falsy by (auto simp: cycleInstructions_def)
  obtain rest where "newEvents w (snd (processMessages opts env tid jobs w)) =
           (clock w, CreateMessage tid (join newline
              (map (\<lambda>job. message (data job)) (sort_key (\<lambda>job. timestamp (data job)) jobs)))) # rest"
     "createMessage_error env = None \<longrightarrow>
              (\<exists>rest'. rest = (clock w, CreateRun tid
                   (if cycleInstructions opts (last (sort_key (\<lambda>job. timestamp (data job)) jobs)) = [] then None
                    else Some (cycleInstructions opts (last (sort_key (\<lambda>job. timestamp (data job)) jobs))))) # rest')"
    using processMessages_new_events [OF free nonempty] by blast
  then show ?thesis using sent ci by auto
qed

theorem empty_instructions_fall_back_witness:
  "instructions (data (last (sort_key (\<lambda>job. timestamp (data job)) [job_C, job_A]))) = Some []
   \<and> (newEvents (busy_world [job_id job_C, job_id job_A])
        (snd (processMessages ex_opts (steady_env 1) ''T'' [job_C, job_A]
               (busy_world [job_id job_C, job_id job_A])))) ! 1
     = (1700000000000, CreateRun ''T'' (Some ''Reply to all messages logically.''))"
  using empty_instructions_fall_back [of "busy_world [job_id job_C, job_id job_A]"
      ex_opts "''T''" "[job_C, job_A]" "steady_env 1"]
  by (simp add: eval_defs)

text \<open>
  C4. When \<open>processMessages\<close> has taken the lock, it ends on every path, whatever the
  \<open>try\<close> block returned or threw, with the compare-and-delete that \<open>releaseLock\<close> also
  makes: the lock key is deleted when it still holds the token this cycle stored, and
  nothing is changed when it holds another value. So when nobody else writes the lock key
  meanwhile, no path leaves the lock behind.
\<close>

theorem lock_release:
  assumes free: "redis_strings w (lockKey opts tid) = None"
  shows "fst (processMessages opts env tid jobs w)
           = fst (processMessages_try opts env tid jobs
                   (w\<lparr>redis_strings := (redis_strings w)(lockKey opts tid \<mapsto> toString (clock w))\<rparr>))
     \<and> snd (processMessages opts env tid jobs w)
           = snd (releaseLock (lockKey opts tid) (toString (clock w))
                   (snd (processMessages_try opts env tid jobs
                     (w\<lparr>redis_strings := (redis_strings w)(lockKey opts tid \<mapsto> toString (clock w))\<rparr>))))
     \<and> (redis_strings (snd (processMessages_try opts env tid jobs
                     (w\<lparr>redis_strings := (redis_strings w)(lockKey opts tid \<mapsto> toString (clock w))\<rparr>)))
           (lockKey opts tid) = Some (toString (clock w)) \<longrightarrow>
          redis_strings (snd (processMessages opts env tid jobs w)) (lockKey opts tid) = None)
     \<and> (redis_strings (snd (processMessages_try opts env tid jobs
                     (w\<lparr>redis_strings := (redis_strings w)(lockKey opts tid \<mapsto> toString (clock w))\<rparr>)))
           (lockKey opts tid) \<noteq> Some (toString (clock w)) \<longrightarrow>
          snd (processMessages opts env tid jobs w)
            = snd (processMessages_try opts env tid jobs
                     (w\<lparr>redis_strings := (redis_strings w)(lockKey opts tid \<mapsto> toString (clock w))\<rparr>)))
     \<and> ((\<forall>v. redis_strings (concurrent env v) (lockKey opts tid) = redis_strings v (lockKey opts tid)) \<longrightarrow>
          redis_strings (snd (processMessages opts env tid jobs w)) (lockKey opts tid) = None)"
proof -
  let ?w0 = "w\<lparr>redis_strings := (redis_strings w)(lockKey opts tid \<mapsto> toString (clock w))\<rparr>"
  let ?w1 = "snd (processMessages_try opts env tid jobs ?w0)"
  note pm = processMessages_free [OF free, where env = env and jobs = jobs]
  have a: "fst (processMessages opts env tid jobs w) = fst (processMessages_try opts env tid jobs ?w0)"
    by (simp add: pm)
  have b: "snd (processMessages opts env tid jobs w) = snd (releaseLock (lockKey opts tid) (toString (clock w)) ?w1)"
    by (simp add: pm)
  have c: "redis_strings ?w1 (lockKey opts tid) = Some (toString (clock w)) \<longrightarrow>
          redis_strings (snd (processMessages opts env tid jobs w)) (lockKey opts tid) = None"
    by (simp add: b releaseLock_def Let_def)
  have d: "redis_strings ?w1 (lockKey opts tid) \<noteq> Some (toString (clock w)) \<longrightarrow>
          snd (processMessages opts env tid jobs w) = ?w1"
    by (simp add: b releaseLock_def Let_def)
  have e: "(\<forall>v. redis_strings (concurrent env v) (lockKey opts tid) = redis_strings v (lockKey opts tid)) \<longrightarrow>
          redis_strings (snd (processMessages opts env tid jobs w)) (lockKey opts tid) = None"
  proof
    assume quiet: "\<forall>v. redis_strings (concurrent env v) (lockKey opts tid) = redis_strings v (lockKey opts tid)"
    have "redis_strings ?w1 (lockKey opts tid) = redis_strings ?w0 (lockKey opts tid)"
      by (rule try_preserves_strings [OF quiet lockKey_not_lastProcessedKey])
    then have "redis_strings ?w1 (lockKey opts tid) = Some (toString (clock w))" by simp
    with c show "redis_strings (snd (processMessages opts env tid jobs w)) (lockKey opts tid) = None"
      by simp
  qed
  from a b c d e show ?thesis by blast
qed

lemma busy_world_free:
  "redis_strings (busy_world ids) (lockKey ex_opts ''T'') = None"
  by (simp add: busy_world_def ex_world_def)

lemma failed_run_outcome:
  "fst (processMessages_try ex_opts failed_run_env ''T'' [job_B, job_A]
         ((busy_world [job_id job_B, job_id job_A])
            \<lparr>redis_strings := (redis_strings (busy_world [job_id job_B, job_id job_A]))
               (lockKey ex_opts ''T'' \<mapsto> toString (clock (busy_world [job_id job_B, job_id job_A])))\<rparr>))
   = Inl (RunEnded ''failed'' ''T'')"
  by (simp add: eval_defs failed_run_env_def)

lemma takeover_lock:
  "redis_strings (snd (processMessages_try ex_opts takeover_env ''T'' [job_B, job_A]
         ((busy_world [job_id job_B, job_id job_A])
            \<lparr>redis_strings := (redis_strings (busy_world [job_id job_B, job_id job_A]))
               (lockKey ex_opts ''T'' \<mapsto> toString (clock (busy_world [job_id job_B, job_id job_A])))\<rparr>)))
      (lockKey ex_opts ''T'') = Some ''1700000000900''"
  by (simp add: eval_defs takeover_env_def)

lemma busy_world_token:
  "toString (clock (busy_world ids)) = ''1700000000000''"
  by (simp add: eval_defs)

theorem lock_release_witness:
  "redis_strings (snd (processMessages ex_opts (steady_env 1) ''T'' [job_B, job_A]
        (busy_world [job_id job_B, job_id job_A]))) (lockKey ex_opts ''T'') = None
   \<and> fst (processMessages ex_opts failed_run_env ''T'' [job_B, job_A] (busy_world [job_id job_B, job_id job_A]))
     = Inl (RunEnded ''failed'' ''T'')
   \<and> redis_strings (snd (processMessages ex_opts failed_run_env ''T'' [job_B, job_A]
        (busy_world [job_id job_B, job_id job_A]))) (lockKey ex_opts ''T'') = None
   \<and> redis_strings (snd (processMessages ex_opts takeover_env ''T'' [job_B, job_A]
        (busy_world [job_id job_B, job_id job_A]))) (lockKey ex_opts ''T'') = Some ''1700000000900''"
proof -
  note free = busy_world_free [of "[job_id job_B, job_id job_A]"]
  have quiet1: "\<forall>v. redis_strings (concurrent (steady_env 1) v) (lockKey ex_opts ''T'')
                  = redis_strings v (lockKey ex_opts ''T'')"
    by (simp add: steady_env_def)
  have quiet2: "\<forall>v. redis_strings (concurrent failed_run_env v) (lockKey ex_opts ''T'')
                  = redis_strings v (lockKey ex_opts ''T'')"
    by (simp add: failed_run_env_def)
  have 1: "redis_strings (snd (processMessages ex_opts (steady_env 1) ''T'' [job_B, job_A]
        (busy_world [job_id job_B, job_id job_A]))) (lockKey ex_opts ''T'') = None"
    using lock_release [OF free, of "steady_env 1" "[job_B, job_A]"] quiet1 by blast
  have 2: "fst (processMessages ex_opts failed_run_env ''T'' [job_B, job_A] (busy_world [job_id job_B, job_id job_A]))
     = Inl (RunEnded ''failed'' ''T'')"
    using lock_release [OF free, of failed_run_env "[job_B, job_A]"] failed_run_outcome by simp
  have 3: "redis_strings (snd (processMessages ex_opts failed_run_env ''T'' [job_B, job_A]
        (busy_world [job_id job_B, job_id job_A]))) (lockKey ex_opts ''T'') = None"
    using lock_release [OF free, of failed_run_env "[job_B, job_A]"] quiet2 by blast
  have "redis_strings (snd (processMessages_try ex_opts takeover_env ''T'' [job_B, job_A]
         ((busy_world [job_id job_B, job_id job_A])
            \<lparr>redis_strings := (redis_strings (busy_world [job_id job_B, job_id job_A]))
               (lockKey ex_opts ''T'' \<mapsto> toString (clock (busy_world [job_id job_B, job_id job_A])))\<rparr>)))
      (lockKey ex_opts ''T'') \<noteq> Some (toString (clock (busy_world [job_id job_B, job_id job_A])))"
    by (subst takeover_lock) (simp add: busy_world_token)
  then have "snd (processMessages ex_opts takeover_env ''T'' [job_B, job_A] (busy_world [job_id job_B, job_id job_A]))
      = snd (processMessages_try ex_opts takeover_env ''T'' [job_B, job_A]
         ((busy_world [job_id job_B, job_id job_A])
            \<lparr>redis_strings := (redis_strings (busy_world [job_id job_B, job_id job_A]))
               (lockKey ex_opts ''T'' \<mapsto> toString (clock (busy_world [job_id job_B, job_id job_A])))\<rparr>))"
    using lock_release [OF free, of takeover_env "[job_B, job_A]"] by blast
  then have 4: "redis_strings (snd (processMessages ex_opts takeover_env ''T'' [job_B, job_A]
        (busy_world [job_id job_B, job_id job_A]))) (lockKey ex_opts ''T'') = Some ''1700000000900''"
    by (simp only: takeover_lock)
  from 1 2 3 4 show ?thesis by blast
qed

text \<open>
  C2. When \<open>processMessages\<close> has taken the lock and returns a result, every job of the
  batch is gone from the queue and every id of the batch is gone from the thread's index.
  With the high-water mark the greatest timestamp of the batch, the jobs that count as
  newer are exactly the jobs still indexed and alive whose timestamp is strictly greater
  than the mark (one equal to the mark does not count), and the only job promoted, when
  there is a newer one, is a newer job of smallest timestamp.
\<close>

theorem cleanup_and_promotion:
  assumes free: "redis_strings w (lockKey opts tid) = None"
    and success: "fst (processMessages opts env tid jobs w) = Inr res"
  shows "(\<forall>job \<in> set jobs. queue_jobs (snd (processMessages opts env tid jobs w)) (job_id job) = None)
     \<and> (\<forall>job \<in> set jobs. job_id job \<noteq> [] \<longrightarrow>
           job_id job \<notin> set (redis_sets (snd (processMessages opts env tid jobs w)) (threadJobsKey opts tid)))
     \<and> set (getNewerJobsByThreadId opts tid (Max ((\<lambda>job. timestamp (data job)) ` set jobs))
              (snd (processMessages opts env tid jobs w)))
         = {job \<in> set (getJobsByThreadId opts tid (snd (processMessages opts env tid jobs w))).
              Max ((\<lambda>job. timestamp (data job)) ` set jobs) < timestamp (data job)}
     \<and> promotesOf (newEvents w (snd (processMessages opts env tid jobs w)))
         = (case getNewerJobsByThreadId opts tid (Max ((\<lambda>job. timestamp (data job)) ` set jobs))
                  (snd (processMessages opts env tid jobs w)) of
              [] \<Rightarrow> [] | job # _ \<Rightarrow> [job_id job])
     \<and> (\<forall>newer \<in> set (getNewerJobsByThreadId opts tid (Max ((\<lambda>job. timestamp (data job)) ` set jobs))
                         (snd (processMessages opts env tid jobs w))).
           timestamp (data (hd (getNewerJobsByThreadId opts tid (Max ((\<lambda>job. timestamp (data job)) ` set jobs))
                                  (snd (processMessages opts env tid jobs w)))))
             \<le> timestamp (data newer))"
proof -
  let ?ts = "\<lambda>job. timestamp (data job)"
  let ?sorted = "sort_key ?ts jobs"
  let ?mark = "Max (?ts ` set jobs)"
  let ?w0 = "w\<lparr>redis_strings := (redis_strings w)(lockKey opts tid \<mapsto> toString (clock w))\<rparr>"
  let ?w' = "snd (processMessages opts env tid jobs w)"
  note pm = processMessages_free [OF free, where env = env and jobs = jobs]
  have "fst (processMessages_try opts env tid jobs ?w0) = Inr res"
    using success by (simp add: pm)
  from try_success [OF this] obtain rid status w5 new where
    t: "processMessages_try opts env tid jobs ?w0 = (Inr res, snd (afterRun opts tid ?sorted ?mark rid status w5))"
    and tr5: "trace w5 = trace ?w0 @ new" "promotesOf new = []"
    by blast
  let ?ids = "filter (\<lambda>i. i \<noteq> []) (map job_id ?sorted)"
  let ?w2 = "removeJobsFromThreadIndex opts tid ?ids (fold remove_job ?sorted w5)"
  let ?w6 = "snd (afterRun opts tid ?sorted ?mark rid status w5)"
  have w': "?w' = snd (releaseLock (lockKey opts tid) (toString (clock w)) ?w6)"
    by (simp add: pm t)
  have q: "queue_jobs ?w' = queue_jobs ?w2" and r: "redis_sets ?w' = redis_sets ?w2"
    using afterRun_stores [of opts tid ?sorted ?mark rid status w5]
    by (simp_all add: w' releaseLock_stores)
  have newer_eq: "getNewerJobsByThreadId opts tid ?mark ?w' = getNewerJobsByThreadId opts tid ?mark ?w2"
    by (rule getNewer_stores [OF r q])
  have a: "\<forall>job \<in> set jobs. queue_jobs ?w' (job_id job) = None"
    using removed_queue [of _ ?sorted opts tid ?ids w5] by (simp add: q)
  have b: "\<forall>job \<in> set jobs. job_id job \<noteq> [] \<longrightarrow> job_id job \<notin> set (redis_sets ?w' (threadJobsKey opts tid))"
    using removed_index [of _ ?sorted opts tid "fold remove_job ?sorted w5"] by (simp add: r)
  have c: "set (getNewerJobsByThreadId opts tid ?mark ?w')
         = {job \<in> set (getJobsByThreadId opts tid ?w'). ?mark < timestamp (data job)}"
    by (auto simp: getNewerJobsByThreadId_def)
  have "trace ?w' = trace ?w6"
    by (simp add: w' releaseLock_trace)
  also have "\<dots> = trace w5 @ (case getNewerJobsByThreadId opts tid ?mark ?w2 of
                [] \<Rightarrow> [] | job # _ \<Rightarrow> [(clock w5, Promote (job_id job))])"
    by (rule afterRun_trace)
  finally have "newEvents w ?w' = new @ (case getNewerJobsByThreadId opts tid ?mark ?w2 of
                [] \<Rightarrow> [] | job # _ \<Rightarrow> [(clock w5, Promote (job_id job))])"
    using tr5(1) by (simp add: newEvents_def)
  then have d: "promotesOf (newEvents w ?w')
         = (case getNewerJobsByThreadId opts tid ?mark ?w' of [] \<Rightarrow> [] | job # _ \<Rightarrow> [job_id job])"
    using tr5(2) by (simp add: promotesOf_append newer_eq split: list.splits)
  have e: "\<forall>newer \<in> set (getNewerJobsByThreadId opts tid ?mark ?w').
           timestamp (data (hd (getNewerJobsByThreadId opts tid ?mark ?w'))) \<le> timestamp (data newer)"
    using sorted_map_hd [OF sorted_getNewerJobs [of opts tid ?mark ?w']] by blast
  from a b c d e show ?thesis by blast
qed

lemma arrival_outcome:
  "fst (processMessages ex_opts arrival_env ''T'' [job_B, job_A] (busy_world [job_id job_B, job_id job_A]))
   = Inr \<lparr>pr_threadId = ''T'', messagesProcessed = 2,
          processedJobIds = [job_id job_A, job_id job_B], runId = ''run_1'', pr_status = ''completed''\<rparr>"
  by (simp add: eval_defs arrival_env_def)

lemma arrival_newer:
  "getNewerJobsByThreadId ex_opts ''T'' 1699999989002
     (snd (processMessages ex_opts arrival_env ''T'' [job_B, job_A] (busy_world [job_id job_B, job_id job_A])))
   = [job_E]"
  by (simp add: eval_defs arrival_env_def job_E_def)

lemma batch_mark: "Max ((\<lambda>job. timestamp (data job)) ` set [job_B, job_A]) = 1699999989002"
  by (simp add: job_A_def job_B_def)

theorem cleanup_and_promotion_witness:
  "queue_jobs (snd (processMessages ex_opts arrival_env ''T'' [job_B, job_A]
                 (busy_world [job_id job_B, job_id job_A]))) (job_id job_A) = None
   \<and> job_id job_A \<notin> set (redis_sets (snd (processMessages ex_opts arrival_env ''T'' [job_B, job_A]
                 (busy_world [job_id job_B, job_id job_A]))) (threadJobsKey ex_opts ''T''))
   \<and> promotesOf (newEvents (busy_world [job_id job_B, job_id job_A])
        (snd (processMessages ex_opts arrival_env ''T'' [job_B, job_A]
               (busy_world [job_id job_B, job_id job_A]))))
      = [''thread_T_1700000000500'']"
proof -
  note t = cleanup_and_promotion [OF busy_world_free arrival_outcome]
  have a: "job_A \<in> set [job_B, job_A]" by simp
  have b: "job_id job_A \<noteq> []" by (simp add: job_A_def)
  from t a have 1: "queue_jobs (snd (processMessages ex_opts arrival_env ''T'' [job_B, job_A]
                 (busy_world [job_id job_B, job_id job_A]))) (job_id job_A) = None"
    by blast
  from t a b have 2: "job_id job_A \<notin> set (redis_sets (snd (processMessages ex_opts arrival_env ''T'' [job_B, job_A]
                 (busy_world [job_id job_B, job_id job_A]))) (threadJobsKey ex_opts ''T''))"
    by blast
  from t have "promotesOf (newEvents (busy_world [job_id job_B, job_id job_A])
        (snd (processMessages ex_opts arrival_env ''T'' [job_B, job_A]
               (busy_world [job_id job_B, job_id job_A]))))
      = (case getNewerJobsByThreadId ex_opts ''T'' (Max ((\<lambda>job. timestamp (data job)) ` set [job_B, job_A]))
                  (snd (processMessages ex_opts arrival_env ''T'' [job_B, job_A]
                         (busy_world [job_id job_B, job_id job_A]))) of
              [] \<Rightarrow> [] | job # _ \<Rightarrow> [job_id job])"
    by blast
  then have 3: "promotesOf (newEvents (busy_world [job_id job_B, job_id job_A])
        (snd (processMessages ex_opts arrival_env ''T'' [job_B, job_A]
               (busy_world [job_id job_B, job_id job_A]))))
      = [''thread_T_1700000000500'']"
    by (simp only: batch_mark arrival_newer list.case) (simp add: job_E_def)
  from 1 2 3 show ?thesis by blast
qed

text \<open>
  C3. A wake-up returns without any effect when the thread's index lists no live job;
  otherwise, when the lock key exists, it only reschedules the woken job to five seconds
  after the clock reading; otherwise it returns without any effect unless the woken job
  is the oldest of the thread's live jobs (the first after sorting by timestamp, which no
  live job precedes in time), in which case its outcome and its effects are those of
  \<open>processMessages\<close> on the live jobs sorted by timestamp.
\<close>

theorem worker_wakeup:
  "(getJobsByThreadId opts (threadId (data job)) w = [] \<longrightarrow> workerCallback opts env job w = (Inr None, w))
   \<and> (getJobsByThreadId opts (threadId (data job)) w \<noteq> [] \<longrightarrow>
        redis_strings w (lockKey opts (threadId (data job))) \<noteq> None \<longrightarrow>
        workerCallback opts env job w = (Inr None, emit (MoveToDelayed (job_id job) (clock w + 5000)) w))
   \<and> (getJobsByThreadId opts (threadId (data job)) w \<noteq> [] \<longrightarrow>
        redis_strings w (lockKey opts (threadId (data job))) = None \<longrightarrow>
        job_id (hd (sort_key (\<lambda>job. timestamp (data job)) (getJobsByThreadId opts (threadId (data job)) w)))
          \<noteq> job_id job \<longrightarrow>
        workerCallback opts env job w = (Inr None, w))
   \<and> (getJobsByThreadId opts (threadId (data job)) w \<noteq> [] \<longrightarrow>
        redis_strings w (lockKey opts (threadId (data job))) = None \<longrightarrow>
        job_id (hd (sort_key (\<lambda>job. timestamp (data job)) (getJobsByThreadId opts (threadId (data job)) w)))
          = job_id job \<longrightarrow>
        fst (workerCallback opts env job w)
          = map_sum id Some (fst (processMessages opts env (threadId (data job))
              (sort_key (\<lambda>job. timestamp (data job)) (getJobsByThreadId opts (threadId (data job)) w)) w))
        \<and> snd (workerCallback opts env job w)
          = snd (processMessages opts env (threadId (data job))
              (sort_key (\<lambda>job. timestamp (data job)) (getJobsByThreadId opts (threadId (data job)) w)) w))
   \<and> (\<forall>live \<in> set (getJobsByThreadId opts (threadId (data job)) w).
        timestamp (data (hd (sort_key (\<lambda>job. timestamp (data job))
                               (getJobsByThreadId opts (threadId (data job)) w))))
          \<le> timestamp (data live))"
proof -
  have "\<forall>live \<in> set (getJobsByThreadId opts (threadId (data job)) w).
        timestamp (data (hd (sort_key (\<lambda>job. timestamp (data job))
                               (getJobsByThreadId opts (threadId (data job)) w))))
          \<le> timestamp (data live)"
    using sorted_map_hd [of "\<lambda>job. timestamp (data job)"
        "sort_key (\<lambda>job. timestamp (data job)) (getJobsByThreadId opts (threadId (data job)) w)"]
    by simp
  then show ?thesis
    by (auto simp: workerCallback_def lockExists_def Let_def split: prod.splits sum.splits)
qed

lemma batch_outcome:
  "fst (processMessages ex_opts (steady_env 1) ''T'' [job_A, job_B] (busy_world [job_id job_B, job_id job_A]))
   = Inr \<lparr>pr_threadId = ''T'', messagesProcessed = 2,
          processedJobIds = [job_id job_A, job_id job_B], runId = ''run_1'', pr_status = ''completed''\<rparr>"
  by (simp add: eval_defs)

theorem worker_wakeup_witness:
  "workerCallback ex_opts (steady_env 1) job_A ex_world = (Inr None, ex_world)
   \<and> workerCallback ex_opts (steady_env 1) job_A locked_world
       = (Inr None, emit (MoveToDelayed (job_id job_A) 1700000005000) locked_world)
   \<and> workerCallback ex_opts (steady_env 1) job_B (busy_world [job_id job_B, job_id job_A])
       = (Inr None, busy_world [job_id job_B, job_id job_A])
   \<and> fst (workerCallback ex_opts (steady_env 1) job_A (busy_world [job_id job_B, job_id job_A]))
       = Inr (Some \<lparr>pr_threadId = ''T'', messagesProcessed = 2,
                    processedJobIds = [job_id job_A, job_id job_B], runId = ''run_1'',
                    pr_status = ''completed''\<rparr>)"
proof -
  have 1: "workerCallback ex_opts (steady_env 1) job_A ex_world = (Inr None, ex_world)"
    using worker_wakeup [of ex_opts job_A ex_world "steady_env 1"]
    by (simp add: getJobsByThreadId_def threadJobsKey_def ex_world_def ex_opts_def job_A_def)
  have 2: "workerCallback ex_opts (steady_env 1) job_A locked_world
       = (Inr None, emit (MoveToDelayed (job_id job_A) 1700000005000) locked_world)"
    using worker_wakeup [of ex_opts job_A locked_world "steady_env 1"]
    by (simp add: listing_defs locked_world_def)
  have 3: "workerCallback ex_opts (steady_env 1) job_B (busy_world [job_id job_B, job_id job_A])
       = (Inr None, busy_world [job_id job_B, job_id job_A])"
    using worker_wakeup [of ex_opts job_B "busy_world [job_id job_B, job_id job_A]" "steady_env 1"]
    by (simp add: listing_defs)
  have "fst (workerCallback ex_opts (steady_env 1) job_A (busy_world [job_id job_B, job_id job_A]))
       = map_sum id Some (fst (processMessages ex_opts (steady_env 1) ''T'' [job_A, job_B]
                                 (busy_world [job_id job_B, job_id job_A])))"
    using worker_wakeup [of ex_opts job_A "busy_world [job_id job_B, job_id job_A]" "steady_env 1"]
    by (simp add: listing_defs)
  then have 4: "fst (workerCallback ex_opts (steady_env 1) job_A (busy_world [job_id job_B, job_id job_A]))
       = Inr (Some \<lparr>pr_threadId = ''T'', messagesProcessed = 2,
                    processedJobIds = [job_id job_A, job_id job_B], runId = ''run_1'',
                    pr_status = ''completed''\<rparr>)"
    by (simp only: batch_outcome) simp
  from 1 2 3 4 show ?thesis by blast
qed

end
